theory Spec2Isabelle
  imports Main "HOL-Library.Char_ord" "HOL-Library.List_Lexorder" "HOL-Library.Sublist"
begin

section \<open>Middleware chain (package middleware)\<close>

text \<open>
  Go: \<^verbatim>\<open>type Handler func(ctx, req) (interface{}, error)\<close> and
  \<^verbatim>\<open>type Middleware func(Handler) Handler\<close>. The handler type is kept abstract
  (\<open>'h\<close>); a middleware is a function on handlers.

  \<^verbatim>\<open>
  func Chain(m ...Middleware) Middleware {
      return func(next Handler) Handler {
          for i := len(m) - 1; i >= 0; i-- { next = m[i](next) }
          return next
      }
  }
  \<close>
  \<open>chain_loop m k next\<close> is the loop when \<open>i = k - 1\<close> is the next index to visit:
  it stops when \<open>i\<close> falls below 0.
\<close>

type_synonym 'h middleware = "'h \<Rightarrow> 'h"

fun chain_loop :: "'h middleware list \<Rightarrow> nat \<Rightarrow> 'h \<Rightarrow> 'h" where
  "chain_loop m 0 next = next"
| "chain_loop m (Suc i) next = chain_loop m i ((m ! i) next)"

definition Chain :: "'h middleware list \<Rightarrow> 'h middleware" where
  "Chain m = (\<lambda>next. chain_loop m (length m) next)"

text \<open>
  Handlers that leave a trace: the context carries the log of events so far, the handler
  returns its response with the extended log. \<open>hooked a\<close> is a middleware with a pre-hook
  and a post-hook around the call of the next handler.
\<close>

datatype 'a event = Pre 'a | Post 'a | Terminal

type_synonym ('a, 'q, 'r) thandler = "'a event list \<Rightarrow> 'q \<Rightarrow> 'r \<times> 'a event list"

definition hooked :: "'a \<Rightarrow> ('a, 'q, 'r) thandler middleware" where
  "hooked a next = (\<lambda>log req.
     let (resp, log') = next (log @ [Pre a]) req in (resp, log' @ [Post a]))"

definition terminal :: "('q \<Rightarrow> 'r) \<Rightarrow> ('a, 'q, 'r) thandler" where
  "terminal f = (\<lambda>log req. (f req, log @ [Terminal]))"


section \<open>Errors (package errors)\<close>

text \<open>
  \<^verbatim>\<open>errors.Error\<close> carries a status (code, reason, message, metadata) and a cause.
  Only code, reason and message are set by the constructors used here.
  \<^verbatim>\<open>New(code, reason, message)\<close> stores \<^verbatim>\<open>int32(code)\<close>; the codes below are
  the constants 400 and 503.
\<close>

record kerror =
  Code :: int
  Reason :: string
  Message :: string

definition errors_New :: "int \<Rightarrow> string \<Rightarrow> string \<Rightarrow> kerror" where
  "errors_New c r m = \<lparr>Code = c, Reason = r, Message = m\<rparr>"

definition BadRequest :: "string \<Rightarrow> string \<Rightarrow> kerror" where
  "BadRequest r m = errors_New 400 r m"

definition ServiceUnavailable :: "string \<Rightarrow> string \<Rightarrow> kerror" where
  "ServiceUnavailable r m = errors_New 503 r m"

definition IsServiceUnavailable :: "kerror \<Rightarrow> bool" where
  "IsServiceUnavailable e = (Code e = 503)"

text \<open>\<^verbatim>\<open>(e *Error) Is(err)\<close>: equal code and reason.\<close>

definition error_Is :: "kerror \<Rightarrow> kerror \<Rightarrow> bool" where
  "error_Is e se = (Code se = Code e \<and> Reason se = Reason e)"

text \<open>
  Outcome of a call: a value, a returned error, or a Go run-time panic (index out of
  range, nil dereference, \<^verbatim>\<open>rand.Intn\<close> on a non-positive bound).
\<close>

datatype 'a res = Ok 'a | Err kerror | Panic


section \<open>Nodes (package selector, package registry)\<close>

record ServiceInstance =
  ID :: string
  Name :: string
  Version :: string
  Metadata :: "string \<rightharpoonup> string"
  Endpoints :: "string list"

text \<open>
  \<^verbatim>\<open>strconv.ParseInt(s, 10, 64)\<close> of the Go standard library, after its documentation:
  an optional sign, then one or more decimal digits (no underscores at base 10), and a
  value within the signed 64-bit range. Every failure is an error, here \<open>None\<close>.
\<close>

definition is_digit :: "char \<Rightarrow> bool" where
  "is_digit c = (CHR ''0'' \<le> c \<and> c \<le> CHR ''9'')"

definition digit_val :: "char \<Rightarrow> nat" where
  "digit_val c = of_char c - of_char CHR ''0''"

definition digits_value :: "string \<Rightarrow> nat" where
  "digits_value ds = foldl (\<lambda>acc c. acc * 10 + digit_val c) 0 ds"

definition ParseInt :: "string \<Rightarrow> int option" where
  "ParseInt s =
     (case s of
        [] \<Rightarrow> None
      | c # rest \<Rightarrow>
          let neg = (c = CHR ''-'');
              ds = (if c = CHR ''+'' \<or> c = CHR ''-'' then rest else s)
          in if ds = [] \<or> \<not> list_all is_digit ds then None
             else let un = digits_value ds
                  in if \<not> neg \<and> un \<ge> 2 ^ 63 then None
                     else if neg \<and> un > 2 ^ 63 then None
                     else Some (if neg then - int un else int un))"

text \<open>\<^verbatim>\<open>selector.DefaultNode\<close>; \<open>weight\<close> is the \<^verbatim>\<open>*int64\<close>, \<open>None\<close> for nil.\<close>

record DefaultNode =
  scheme :: string
  addr :: string
  weight :: "int option"
  version :: string
  name :: string
  metadata :: "string \<rightharpoonup> string"

definition NewNode :: "string \<Rightarrow> string \<Rightarrow> ServiceInstance option \<Rightarrow> DefaultNode" where
  "NewNode sch a ins =
     (let n = \<lparr>scheme = sch, addr = a, weight = None, version = [], name = [],
                metadata = Map.empty\<rparr>
      in case ins of
           None \<Rightarrow> n
         | Some i \<Rightarrow>
             let n = n\<lparr>name := Name i, version := Version i, metadata := Metadata i\<rparr>
             in case Metadata i ''weight'' of
                  None \<Rightarrow> n
                | Some str \<Rightarrow>
                    (case ParseInt str of
                       Some w \<Rightarrow> n\<lparr>weight := Some w\<rparr>
                     | None \<Rightarrow> n))"

definition Address :: "DefaultNode \<Rightarrow> string" where
  "Address n = addr n"

definition InitialWeight :: "DefaultNode \<Rightarrow> int option" where
  "InitialWeight n = weight n"

text \<open>
  The weights of the direct nodes and the accumulators of the wrr balancer are float64
  values. They are all integers: a weight is \<^verbatim>\<open>float64(int64)\<close> or the constant 100, and
  the balancer only adds and subtracts them. An integer-valued float64 is modelled by
  the integer it denotes, and \<open>f64 x\<close> is the float64 nearest to the integer \<open>x\<close>: 53
  significant bits, round to nearest, ties to even. It is the value of the conversion
  \<^verbatim>\<open>float64(x)\<close> of an int64, and of a float64 addition or subtraction of integer-valued
  operands whose exact result is \<open>x\<close>. \<open>f64_scale n\<close> is the spacing of the float64 values
  at the magnitude \<open>n\<close>: 1 below \<open>2^53\<close>, doubling with every further bit; \<open>round_even x q\<close>
  is the integer nearest to \<open>x / q\<close>, the even one of two at the same distance. (Beyond
  \<open>2^1024\<close> float64 has only infinities; sums of int64 weights do not get there.)
\<close>

function f64_scale :: "nat \<Rightarrow> nat" where
  "f64_scale n = (if n < 2 ^ 53 then 1 else 2 * f64_scale (n div 2))"
  by pat_completeness auto
termination
  by (relation "measure (\<lambda>n. n)") auto

declare f64_scale.simps [simp del]

definition round_even :: "int \<Rightarrow> int \<Rightarrow> int" where
  "round_even x q =
     (let d = x div q; m = x mod q
      in if 2 * m < q then d
         else if q < 2 * m then d + 1
         else if even d then d else d + 1)"

definition f64 :: "int \<Rightarrow> int" where
  "f64 x = (let q = int (f64_scale (nat \<bar>x\<bar>)) in round_even x q * q)"

text \<open>
  \<^verbatim>\<open>direct.Node\<close> wraps a node. Its \<^verbatim>\<open>Weight()\<close> is \<^verbatim>\<open>float64(*InitialWeight)\<close> or
  the default 100. \<^verbatim>\<open>Pick()\<close> stores the clock into \<^verbatim>\<open>lastPick\<close>, which only
  \<^verbatim>\<open>PickElapsed\<close> reads, and returns an empty callback.
\<close>

datatype DoneFunc = NoopDone | EwmaDone int nat bool

record direct_Node =
  Node :: DefaultNode

definition defaultWeight :: int where
  "defaultWeight = 100"

definition direct_Build :: "DefaultNode \<Rightarrow> direct_Node" where
  "direct_Build n = \<lparr>Node = n\<rparr>"

definition direct_Weight :: "direct_Node \<Rightarrow> int" where
  "direct_Weight n =
     (case InitialWeight (Node n) of Some w \<Rightarrow> f64 w | None \<Rightarrow> defaultWeight)"

definition direct_Pick :: "direct_Node \<Rightarrow> DoneFunc" where
  "direct_Pick n = NoopDone"

definition direct_Raw :: "direct_Node \<Rightarrow> DefaultNode" where
  "direct_Raw n = Node n"

definition direct_Address :: "direct_Node \<Rightarrow> string" where
  "direct_Address n = Address (Node n)"


section \<open>The default selector (package selector)\<close>

definition ErrNoAvailable :: kerror where
  "ErrNoAvailable = ServiceUnavailable ''no_available_node'' []"

text \<open>
  \<^verbatim>\<open>Default\<close> holds the node builder, the balancer and the atomic value \<^verbatim>\<open>nodes\<close>;
  \<open>snapshot = None\<close> is the atomic value before its first \<^verbatim>\<open>Store\<close>, when the type
  assertion of \<^verbatim>\<open>Load()\<close> fails. The builder and the balancer's \<^verbatim>\<open>Pick\<close> are the
  parameters \<open>Build\<close> and \<open>pick\<close> of the operations; \<open>Balancer\<close> is the balancer's state.
  A node filter maps a node list to a node list; the nodes it is given are the weighted
  nodes of the snapshot, and \<^verbatim>\<open>n.(WeightedNode)\<close> converts its result back.
\<close>

record ('w, 'b) Default =
  snapshot :: "'w list option"
  Balancer :: 'b

record 'w SelectOptions =
  NodeFilters :: "('w list \<Rightarrow> 'w list) list"

definition WithNodeFilter ::
  "('w list \<Rightarrow> 'w list) list \<Rightarrow> 'w SelectOptions \<Rightarrow> 'w SelectOptions" where
  "WithNodeFilter fn opts = opts\<lparr>NodeFilters := fn\<rparr>"

record Peer =
  PeerNode :: "DefaultNode option"

definition DefaultBuilder_Build :: "'b \<Rightarrow> ('w, 'b) Default" where
  "DefaultBuilder_Build b = \<lparr>snapshot = None, Balancer = b\<rparr>"

definition Apply :: "(DefaultNode \<Rightarrow> 'w) \<Rightarrow> ('w, 'b) Default \<Rightarrow> DefaultNode list \<Rightarrow> ('w, 'b) Default" where
  "Apply Build d ns = d\<lparr>snapshot := Some (map Build ns)\<rparr>"

definition Select ::
  "('w \<Rightarrow> DefaultNode) \<Rightarrow> ('b \<Rightarrow> 'w list \<Rightarrow> ('w \<times> DoneFunc option \<times> 'b) res) \<Rightarrow>
   ('w, 'b) Default \<Rightarrow> Peer option \<Rightarrow> ('w SelectOptions \<Rightarrow> 'w SelectOptions) list \<Rightarrow>
   (DefaultNode \<times> DoneFunc option \<times> Peer option \<times> ('w, 'b) Default) res" where
  "Select Raw pick d ctx opts =
     (case snapshot d of
        None \<Rightarrow> Err ErrNoAvailable
      | Some nodes \<Rightarrow>
          let options = foldl (\<lambda>os opt. opt os) \<lparr>NodeFilters = []\<rparr> opts;
              candidates =
                (if length (NodeFilters options) > 0
                 then foldl (\<lambda>newNodes f. f newNodes) nodes (NodeFilters options)
                 else nodes)
          in if length candidates = 0 then Err ErrNoAvailable
             else case pick (Balancer d) candidates of
                    Err e \<Rightarrow> Err e
                  | Panic \<Rightarrow> Panic
                  | Ok (wn, dn, b') \<Rightarrow>
                      Ok (Raw wn, dn,
                          map_option (\<lambda>p. p\<lparr>PeerNode := Some (Raw wn)\<rparr>) ctx,
                          d\<lparr>Balancer := b'\<rparr>))"

text \<open>
  The two loops of \<^verbatim>\<open>Select\<close> by themselves: the node filters that the options leave in
  \<^verbatim>\<open>options.NodeFilters\<close>, and the candidates after the filters ran in order.
\<close>

definition select_filters :: "('w SelectOptions \<Rightarrow> 'w SelectOptions) list \<Rightarrow> ('w list \<Rightarrow> 'w list) list" where
  "select_filters opts = NodeFilters (foldl (\<lambda>os opt. opt os) \<lparr>NodeFilters = []\<rparr> opts)"

definition apply_filters :: "('w list \<Rightarrow> 'w list) list \<Rightarrow> 'w list \<Rightarrow> 'w list" where
  "apply_filters fs nodes = foldl (\<lambda>newNodes f. f newNodes) nodes fs"

text \<open>\<^verbatim>\<open>filter.Version\<close>: keep the nodes of the given version.\<close>

definition filter_Version :: "('w \<Rightarrow> DefaultNode) \<Rightarrow> string \<Rightarrow> 'w list \<Rightarrow> 'w list" where
  "filter_Version Raw v nodes = filter (\<lambda>n. version (Raw n) = v) nodes"


section \<open>Balancers (packages random, wrr, p2c)\<close>

text \<open>
  \<^verbatim>\<open>rand.Intn(n)\<close> panics for \<open>n \<le> 0\<close> and otherwise returns a number in \<open>[0, n)\<close>.
  The generator's raw output \<open>r\<close> is an input of the model; every value of \<open>[0, n)\<close> is
  the result for some \<open>r\<close>.
\<close>

definition Intn :: "nat \<Rightarrow> nat \<Rightarrow> nat res" where
  "Intn r n = (if n = 0 then Panic else Ok (r mod n))"

definition random_Pick ::
  "('w \<Rightarrow> DoneFunc) \<Rightarrow> nat \<Rightarrow> unit \<Rightarrow> 'w list \<Rightarrow> ('w \<times> DoneFunc option \<times> unit) res" where
  "random_Pick PickN r p nodes =
     (if length nodes = 0 then Err ErrNoAvailable
      else case Intn r (length nodes) of
             Ok cur \<Rightarrow> (let selected = nodes ! cur in Ok (selected, Some (PickN selected), p))
           | Err e \<Rightarrow> Err e
           | Panic \<Rightarrow> Panic)"

text \<open>
  The wrr balancer's state is the map \<^verbatim>\<open>currentWeight\<close> from addresses to accumulators; a
  missing key reads as 0. The loop state is (totalWeight, currentWeight, selected,
  selectWeight), \<open>selected = None\<close> for nil. The weight \<open>W\<close> of a node, the accumulators
  and the two sums are integer-valued float64 values; each \<^verbatim>\<open>+=\<close> and the final
  subtraction round their exact result with \<open>f64\<close>.
\<close>

definition cw_get :: "(string \<rightharpoonup> int) \<Rightarrow> string \<Rightarrow> int" where
  "cw_get m a = (case m a of None \<Rightarrow> 0 | Some v \<Rightarrow> v)"

fun wrr_loop ::
  "('w \<Rightarrow> string) \<Rightarrow> ('w \<Rightarrow> int) \<Rightarrow> 'w list \<Rightarrow>
   int \<times> (string \<rightharpoonup> int) \<times> 'w option \<times> int \<Rightarrow> int \<times> (string \<rightharpoonup> int) \<times> 'w option \<times> int" where
  "wrr_loop A W [] st = st"
| "wrr_loop A W (node # rest) (totalWeight, cw, selected, selectWeight) =
     (let totalWeight' = f64 (totalWeight + W node);
          cwt = f64 (cw_get cw (A node) + W node);
          cw' = cw(A node \<mapsto> cwt)
      in if selected = None \<or> selectWeight < cwt
         then wrr_loop A W rest (totalWeight', cw', Some node, cwt)
         else wrr_loop A W rest (totalWeight', cw', selected, selectWeight))"

definition wrr_Pick ::
  "('w \<Rightarrow> string) \<Rightarrow> ('w \<Rightarrow> int) \<Rightarrow> ('w \<Rightarrow> DoneFunc) \<Rightarrow> (string \<rightharpoonup> int) \<Rightarrow> 'w list \<Rightarrow>
   ('w \<times> DoneFunc option \<times> (string \<rightharpoonup> int)) res" where
  "wrr_Pick A W PickN currentWeight nodes =
     (if length nodes = 0 then Err ErrNoAvailable
      else case wrr_loop A W nodes (0, currentWeight, None, 0) of
             (totalWeight, cw, selected, selectWeight) \<Rightarrow>
               (case selected of
                  None \<Rightarrow> Panic
                | Some sel \<Rightarrow>
                    Ok (sel, Some (PickN sel), cw(A sel \<mapsto> f64 (selectWeight - totalWeight)))))"

definition wrr_Build :: "string \<rightharpoonup> int" where
  "wrr_Build = Map.empty"


text \<open>
  The p2c balancer: \<^verbatim>\<open>forcePick\<close> is 3 s in nanoseconds; \<^verbatim>\<open>picked\<close> is the flag of the
  forced probe, claimed by a compare-and-swap from 0 to 1 and stored back to 0. The two
  draws of \<^verbatim>\<open>prePick\<close> are the inputs \<open>r1\<close> and \<open>r2\<close>. \<open>W\<close>, \<open>E\<close> and \<open>PickN\<close> are the
  node's \<^verbatim>\<open>Weight()\<close>, \<^verbatim>\<open>PickElapsed()\<close> (nanoseconds) and \<^verbatim>\<open>Pick()\<close>; weights are
  compared with the order of their type.
\<close>

definition forcePick :: int where
  "forcePick = 3 * 1000000000"

record p2c_Balancer =
  picked :: int

definition CompareAndSwapInt64 :: "int \<Rightarrow> int \<Rightarrow> int \<Rightarrow> bool \<times> int" where
  "CompareAndSwapInt64 v old new = (if v = old then (True, new) else (False, v))"

definition prePick :: "nat \<Rightarrow> nat \<Rightarrow> 'w list \<Rightarrow> ('w \<times> 'w) res" where
  "prePick r1 r2 nodes =
     (case Intn r1 (length nodes) of
        Panic \<Rightarrow> Panic
      | Err e \<Rightarrow> Err e
      | Ok a \<Rightarrow>
          (case Intn r2 (length nodes - 1) of
             Panic \<Rightarrow> Panic
           | Err e \<Rightarrow> Err e
           | Ok b \<Rightarrow>
               let b' = (if b \<ge> a then b + 1 else b)
               in if a < length nodes \<and> b' < length nodes
                  then Ok (nodes ! a, nodes ! b') else Panic))"

definition p2c_Pick ::
  "('w \<Rightarrow> 'v::linorder) \<Rightarrow> ('w \<Rightarrow> int) \<Rightarrow> ('w \<Rightarrow> DoneFunc) \<Rightarrow> nat \<Rightarrow> nat \<Rightarrow>
   p2c_Balancer \<Rightarrow> 'w list \<Rightarrow> ('w \<times> DoneFunc option \<times> p2c_Balancer) res" where
  "p2c_Pick W E PickN r1 r2 s nodes =
     (if length nodes = 0 then Err ErrNoAvailable
      else if length nodes = 1 then Ok (nodes ! 0, Some (PickN (nodes ! 0)), s)
      else case prePick r1 r2 nodes of
             Panic \<Rightarrow> Panic
           | Err e \<Rightarrow> Err e
           | Ok (nodeA, nodeB) \<Rightarrow>
               let (pc, upc) = (if W nodeB > W nodeA then (nodeB, nodeA) else (nodeA, nodeB))
               in if E upc > forcePick
                  then (case CompareAndSwapInt64 (picked s) 0 1 of
                          (True, v) \<Rightarrow> Ok (upc, Some (PickN upc), s\<lparr>picked := 0\<rparr>)
                        | (False, v) \<Rightarrow> Ok (pc, Some (PickN pc), s\<lparr>picked := v\<rparr>))
                  else Ok (pc, Some (PickN pc), s))"

definition p2c_Build :: p2c_Balancer where
  "p2c_Build = \<lparr>picked = 0\<rparr>"


section \<open>The two-node scenario of the balancer tests\<close>

text \<open>
  The nodes of \<^verbatim>\<open>TestWrr\<close>: addresses 127.0.0.1:8080 and 127.0.0.1:9090, version
  v2.0.0, metadata weights "10" and "20".
\<close>

definition test_instance :: "string \<Rightarrow> string \<Rightarrow> ServiceInstance" where
  "test_instance a w =
     \<lparr>ID = a, Name = [], Version = ''v2.0.0'', Metadata = [''weight'' \<mapsto> w], Endpoints = []\<rparr>"

definition node_8080 :: DefaultNode where
  "node_8080 = NewNode ''http'' ''127.0.0.1:8080'' (Some (test_instance ''127.0.0.1:8080'' ''10''))"

definition node_9090 :: DefaultNode where
  "node_9090 = NewNode ''http'' ''127.0.0.1:9090'' (Some (test_instance ''127.0.0.1:9090'' ''20''))"

definition wrr_Select ::
  "(direct_Node, string \<rightharpoonup> int) Default \<Rightarrow> string \<Rightarrow>
   (DefaultNode \<times> DoneFunc option \<times> Peer option \<times> (direct_Node, string \<rightharpoonup> int) Default) res" where
  "wrr_Select d v =
     Select direct_Raw (wrr_Pick direct_Address direct_Weight direct_Pick) d None
       [WithNodeFilter [filter_Version direct_Raw v]]"

definition wrr_New :: "(direct_Node, string \<rightharpoonup> int) Default" where
  "wrr_New = DefaultBuilder_Build wrr_Build"


text \<open>
  The wording of the wrr step, to compare \<^verbatim>\<open>Pick\<close> with: \<open>wrr_added\<close> is the accumulator
  of an address after every candidate's weight was added to the accumulator of its
  address, \<open>wrr_total\<close> the total weight of the candidates, both in exact arithmetic.
  \<open>wrr_in_range\<close> is the range in which float64 computes them exactly: the magnitude of
  each candidate's accumulator and twice the magnitudes of all the weights stay below
  \<open>2^53\<close> together.
\<close>

definition wrr_abs_total :: "('w \<Rightarrow> int) \<Rightarrow> 'w list \<Rightarrow> int" where
  "wrr_abs_total W nodes = sum_list (map (\<lambda>n. \<bar>W n\<bar>) nodes)"

definition wrr_in_range :: "('w \<Rightarrow> string) \<Rightarrow> ('w \<Rightarrow> int) \<Rightarrow> (string \<rightharpoonup> int) \<Rightarrow> 'w list \<Rightarrow> bool" where
  "wrr_in_range A W cw nodes =
     list_all (\<lambda>n. \<bar>cw_get cw (A n)\<bar> + 2 * wrr_abs_total W nodes < 2 ^ 53) nodes"

definition wrr_added :: "('w \<Rightarrow> string) \<Rightarrow> ('w \<Rightarrow> int) \<Rightarrow> (string \<rightharpoonup> int) \<Rightarrow> 'w list \<Rightarrow> string \<Rightarrow> int" where
  "wrr_added A W cw nodes a = cw_get cw a + sum_list (map W (filter (\<lambda>n. A n = a) nodes))"

definition wrr_total :: "('w \<Rightarrow> int) \<Rightarrow> 'w list \<Rightarrow> int" where
  "wrr_total W nodes = sum_list (map W nodes)"

definition wrr_is_max :: "('w \<Rightarrow> string) \<Rightarrow> ('w \<Rightarrow> int) \<Rightarrow> (string \<rightharpoonup> int) \<Rightarrow> 'w list \<Rightarrow> 'w \<Rightarrow> bool" where
  "wrr_is_max A W cw nodes sel =
     (sel \<in> set nodes \<and> list_all (\<lambda>n. wrr_added A W cw nodes (A n) \<le> wrr_added A W cw nodes (A sel)) nodes)"

definition wrr_after :: "('w \<Rightarrow> string) \<Rightarrow> ('w \<Rightarrow> int) \<Rightarrow> (string \<rightharpoonup> int) \<Rightarrow> 'w list \<Rightarrow> 'w \<Rightarrow> string \<Rightarrow> int" where
  "wrr_after A W cw nodes sel a =
     (if a = A sel then wrr_added A W cw nodes a - wrr_total W nodes else wrr_added A W cw nodes a)"

text \<open>\<open>n\<close> calls of \<^verbatim>\<open>Select\<close> in a row on the wrr selector, as the loop of the test makes
  them: the addresses of the selected nodes, in order.\<close>

fun wrr_select_n ::
  "nat \<Rightarrow> (direct_Node, string \<rightharpoonup> int) Default \<Rightarrow> string \<Rightarrow> string list res" where
  "wrr_select_n 0 d v = Ok []"
| "wrr_select_n (Suc k) d v =
     (case wrr_Select d v of
        Err e \<Rightarrow> Err e
      | Panic \<Rightarrow> Panic
      | Ok (n, dn, c, d') \<Rightarrow>
          (case wrr_select_n k d' v of
             Err e \<Rightarrow> Err e
           | Panic \<Rightarrow> Panic
           | Ok as \<Rightarrow> Ok (Address n # as)))"


text \<open>The invariant of the selection: the selected node's accumulator is \<open>selectWeight\<close>
  and no address seen so far has a larger one.\<close>

definition wrr_inv :: "('w \<Rightarrow> string) \<Rightarrow> (string \<rightharpoonup> int) \<Rightarrow> 'w option \<Rightarrow> int \<Rightarrow> string set \<Rightarrow> bool" where
  "wrr_inv A cw s sw P =
     (case s of None \<Rightarrow> P = {}
      | Some x \<Rightarrow> A x \<in> P \<and> sw = cw_get cw (A x) \<and> (\<forall>a \<in> P. cw_get cw a \<le> sw))"

text \<open>The room left in the loop: the running total and the accumulators of the nodes
  still to come stay below \<open>2^53\<close> in magnitude when the remaining weights are added.\<close>

definition wrr_fits :: "('w \<Rightarrow> string) \<Rightarrow> ('w \<Rightarrow> int) \<Rightarrow> (string \<rightharpoonup> int) \<Rightarrow> int \<Rightarrow> 'w list \<Rightarrow> bool" where
  "wrr_fits A W cw t ns =
     (\<bar>t\<bar> + wrr_abs_total W ns < 2 ^ 53
      \<and> list_all (\<lambda>n. \<bar>cw_get cw (A n)\<bar> + wrr_abs_total W ns < 2 ^ 53) ns)"

text \<open>Two direct nodes of weights \<open>2^53\<close> and 1, where float64 addition rounds.\<close>

definition big_node :: direct_Node where
  "big_node = direct_Build (NewNode ''http'' ''10.0.0.1:80''
                (Some (test_instance ''i1'' ''9007199254740992'')))"

definition one_node :: direct_Node where
  "one_node = direct_Build (NewNode ''http'' ''10.0.0.2:80'' (Some (test_instance ''i2'' ''1'')))"


text \<open>The state of the two-node scenario: the snapshot of the two direct nodes and the
  accumulators \<open>x\<close> and \<open>y\<close> of their addresses.\<close>

definition wrr_state :: "(direct_Node, string \<rightharpoonup> int) Default \<Rightarrow> int \<Rightarrow> int \<Rightarrow> bool" where
  "wrr_state d x y =
     (snapshot d = Some [direct_Build node_8080, direct_Build node_9090]
      \<and> cw_get (Balancer d) ''127.0.0.1:8080'' = x
      \<and> cw_get (Balancer d) ''127.0.0.1:9090'' = y)"


text \<open>Two direct nodes at one address, with metadata weights "10" and "-5".\<close>

definition dup_pos :: direct_Node where
  "dup_pos = direct_Build (NewNode ''http'' ''10.0.0.1:80'' (Some (test_instance ''i1'' ''10'')))"

definition dup_neg :: direct_Node where
  "dup_neg = direct_Build (NewNode ''http'' ''10.0.0.1:80'' (Some (test_instance ''i2'' ''-5'')))"


section \<open>Endpoints (package endpoint)\<close>

text \<open>
  \<^verbatim>\<open>url.Parse\<close> belongs to the Go standard library; \<^verbatim>\<open>ParseEndpoint\<close> takes it as the
  parameter \<open>up\<close>, \<open>None\<close> for an error. Of the parsed URL only the scheme and the host
  are read.
\<close>

record URL =
  url_Scheme :: string
  url_Host :: string

fun ParseEndpoint :: "(string \<Rightarrow> URL option) \<Rightarrow> string list \<Rightarrow> string \<Rightarrow> string option" where
  "ParseEndpoint up [] sch = Some []"
| "ParseEndpoint up (e # es) sch =
     (case up e of
        None \<Rightarrow> None
      | Some u \<Rightarrow> if url_Scheme u = sch then Some (url_Host u) else ParseEndpoint up es sch)"

definition endpoint_Scheme :: "string \<Rightarrow> bool \<Rightarrow> string" where
  "endpoint_Scheme sch isSecure = (if isSecure then sch @ ''s'' else sch)"

text \<open>
  A parser for the endpoint format \<^verbatim>\<open>scheme://host:port?isSecure=bool\<close>, on which
  \<^verbatim>\<open>url.Parse\<close> returns the text before \<^verbatim>\<open>://\<close> as the scheme and the text up to the
  next \<^verbatim>\<open>/\<close>, \<^verbatim>\<open>?\<close> or \<^verbatim>\<open>#\<close> as the host. It stands for \<^verbatim>\<open>url.Parse\<close> where the
  resolvers are run on concrete instances.
\<close>

fun split_scheme :: "string \<Rightarrow> (string \<times> string) option" where
  "split_scheme [] = None"
| "split_scheme (c # cs) =
     (if take 3 (c # cs) = ''://'' then Some ([], drop 3 (c # cs))
      else map_option (\<lambda>(s, r). (c # s, r)) (split_scheme cs))"

definition uri_parse :: "string \<Rightarrow> URL option" where
  "uri_parse e =
     (case split_scheme e of
        None \<Rightarrow> None
      | Some (s, r) \<Rightarrow>
          Some \<lparr>url_Scheme = s,
                url_Host = takeWhile (\<lambda>c. c \<noteq> CHR ''/'' \<and> c \<noteq> CHR ''?'' \<and> c \<noteq> CHR ''#'') r\<rparr>)"


section \<open>Resolvers (packages transport/http and transport/grpc/resolver/discovery)\<close>

text \<open>
  The fields both resolvers share, then the HTTP resolver with its rebalancer and the
  gRPC resolver with its client connection. \<^verbatim>\<open>subset.Subset\<close> belongs to another module
  and is the parameter \<open>Subset\<close>; \<^verbatim>\<open>Rebalancer.Apply\<close> and \<^verbatim>\<open>ClientConn.UpdateState\<close> are
  the parameters \<open>ApplyF\<close> and \<open>UpdateState\<close>. The target and the debug flag only feed the
  log.
\<close>

record resolver_fields =
  insecure :: bool
  selectorKey :: string
  subsetSize :: int

record 'r http_resolver = resolver_fields +
  rebalancer :: 'r

record 'c discoveryResolver = resolver_fields +
  cc :: 'c

text \<open>The first loop of the HTTP \<^verbatim>\<open>update\<close>: instances whose endpoints parse and hold an
  endpoint of the resolver's scheme.\<close>

fun http_filtered :: "(string \<Rightarrow> URL option) \<Rightarrow> bool \<Rightarrow> ServiceInstance list \<Rightarrow> ServiceInstance list" where
  "http_filtered up insec [] = []"
| "http_filtered up insec (ins # services) =
     (case ParseEndpoint up (Endpoints ins) (endpoint_Scheme ''http'' (\<not> insec)) of
        None \<Rightarrow> http_filtered up insec services
      | Some ept \<Rightarrow>
          if ept = [] then http_filtered up insec services
          else ins # http_filtered up insec services)"

definition ept_of :: "(string \<Rightarrow> URL option) \<Rightarrow> string \<Rightarrow> ServiceInstance \<Rightarrow> string" where
  "ept_of up sch ins = (case ParseEndpoint up (Endpoints ins) sch of None \<Rightarrow> [] | Some ept \<Rightarrow> ept)"

definition http_nodes ::
  "(string \<Rightarrow> URL option) \<Rightarrow> (string \<Rightarrow> ServiceInstance list \<Rightarrow> int \<Rightarrow> ServiceInstance list) \<Rightarrow>
   ('r, 'x) http_resolver_scheme \<Rightarrow> ServiceInstance list \<Rightarrow> DefaultNode list" where
  "http_nodes up Subset r services =
     (let filtered = http_filtered up (insecure r) services;
          filtered = (if subsetSize r \<noteq> 0 then Subset (selectorKey r) filtered (subsetSize r)
                      else filtered)
      in map (\<lambda>ins. NewNode ''http''
                       (ept_of up (endpoint_Scheme ''http'' (\<not> insecure r)) ins) (Some ins))
           filtered)"

definition http_update ::
  "(string \<Rightarrow> URL option) \<Rightarrow> (string \<Rightarrow> ServiceInstance list \<Rightarrow> int \<Rightarrow> ServiceInstance list) \<Rightarrow>
   ('r \<Rightarrow> DefaultNode list \<Rightarrow> 'r) \<Rightarrow> 'r http_resolver \<Rightarrow> ServiceInstance list \<Rightarrow>
   'r http_resolver \<times> bool" where
  "http_update up Subset ApplyF r services =
     (let nodes = http_nodes up Subset r services
      in if length nodes = 0 then (r, False)
         else (r\<lparr>rebalancer := ApplyF (rebalancer r) nodes\<rparr>, True))"

text \<open>
  What \<^verbatim>\<open>Watcher.Next\<close> returns: the cancellation error, another error, or instances.
  The background loop of \<^verbatim>\<open>newResolver\<close> runs over the results the watcher delivers:
  it returns on cancellation, sleeps and goes on after another error, and calls
  \<^verbatim>\<open>update\<close> on instances. \<open>http_watch\<close> collects the rebalancer after every result.
\<close>

datatype next_result = Canceled | Failed | Instances "ServiceInstance list"

fun http_watch ::
  "(string \<Rightarrow> URL option) \<Rightarrow> (string \<Rightarrow> ServiceInstance list \<Rightarrow> int \<Rightarrow> ServiceInstance list) \<Rightarrow>
   ('r \<Rightarrow> DefaultNode list \<Rightarrow> 'r) \<Rightarrow> 'r http_resolver \<Rightarrow> next_result list \<Rightarrow> 'r list" where
  "http_watch up Subset ApplyF r [] = []"
| "http_watch up Subset ApplyF r (Canceled # rest) = []"
| "http_watch up Subset ApplyF r (Failed # rest) =
     rebalancer r # http_watch up Subset ApplyF r rest"
| "http_watch up Subset ApplyF r (Instances services # rest) =
     (let r' = fst (http_update up Subset ApplyF r services)
      in rebalancer r' # http_watch up Subset ApplyF r' rest)"

text \<open>
  The gRPC resolver. \<open>grpc_filtered\<close> is the first loop of its \<^verbatim>\<open>update\<close>, with the set
  \<^verbatim>\<open>endpoints\<close> of the addresses already taken. A \<^verbatim>\<open>resolver.Address\<close> carries the
  address, the server name and the attributes (the metadata and the instance itself).
\<close>

record grpc_Address =
  Addr :: string
  ServerName :: string
  Attributes :: "(string \<rightharpoonup> string) \<times> ServiceInstance"

fun grpc_filtered ::
  "(string \<Rightarrow> URL option) \<Rightarrow> bool \<Rightarrow> ServiceInstance list \<Rightarrow> string set \<Rightarrow> ServiceInstance list" where
  "grpc_filtered up insec [] endpoints = []"
| "grpc_filtered up insec (i # ins) endpoints =
     (case ParseEndpoint up (Endpoints i) (endpoint_Scheme ''grpc'' (\<not> insec)) of
        None \<Rightarrow> grpc_filtered up insec ins endpoints
      | Some ept \<Rightarrow>
          if ept = [] then grpc_filtered up insec ins endpoints
          else if ept \<in> endpoints then grpc_filtered up insec ins endpoints
          else i # grpc_filtered up insec ins (insert ept endpoints))"

definition grpc_addrs ::
  "(string \<Rightarrow> URL option) \<Rightarrow> (string \<Rightarrow> ServiceInstance list \<Rightarrow> int \<Rightarrow> ServiceInstance list) \<Rightarrow>
   ('c, 'x) discoveryResolver_scheme \<Rightarrow> ServiceInstance list \<Rightarrow> grpc_Address list" where
  "grpc_addrs up Subset r ins =
     (let filtered = grpc_filtered up (insecure r) ins {};
          filtered = (if subsetSize r \<noteq> 0 then Subset (selectorKey r) filtered (subsetSize r)
                      else filtered)
      in map (\<lambda>i. \<lparr>Addr = ept_of up (endpoint_Scheme ''grpc'' (\<not> insecure r)) i,
                     ServerName = Name i,
                     Attributes = (Metadata i, i)\<rparr>)
           filtered)"

definition grpc_update ::
  "(string \<Rightarrow> URL option) \<Rightarrow> (string \<Rightarrow> ServiceInstance list \<Rightarrow> int \<Rightarrow> ServiceInstance list) \<Rightarrow>
   ('c \<Rightarrow> grpc_Address list \<Rightarrow> 'c) \<Rightarrow> 'c discoveryResolver \<Rightarrow> ServiceInstance list \<Rightarrow>
   'c discoveryResolver" where
  "grpc_update up Subset UpdateState r ins =
     (let addrs = grpc_addrs up Subset r ins
      in if length addrs = 0 then r
         else r\<lparr>cc := UpdateState (cc r) addrs\<rparr>)"

fun grpc_watch ::
  "(string \<Rightarrow> URL option) \<Rightarrow> (string \<Rightarrow> ServiceInstance list \<Rightarrow> int \<Rightarrow> ServiceInstance list) \<Rightarrow>
   ('c \<Rightarrow> grpc_Address list \<Rightarrow> 'c) \<Rightarrow> 'c discoveryResolver \<Rightarrow> next_result list \<Rightarrow> 'c list" where
  "grpc_watch up Subset UpdateState r [] = []"
| "grpc_watch up Subset UpdateState r (Canceled # rest) = []"
| "grpc_watch up Subset UpdateState r (Failed # rest) =
     cc r # grpc_watch up Subset UpdateState r rest"
| "grpc_watch up Subset UpdateState r (Instances ins # rest) =
     (let r' = grpc_update up Subset UpdateState r ins
      in cc r' # grpc_watch up Subset UpdateState r' rest)"

text \<open>A sink that records every list handed to \<^verbatim>\<open>Apply\<close> or \<^verbatim>\<open>UpdateState\<close>.\<close>

definition record_call :: "'a list list \<Rightarrow> 'a list \<Rightarrow> 'a list list" where
  "record_call log xs = log @ [xs]"


text \<open>
  Instances and resolvers to run the updates on: an instance with a gRPC and an HTTP
  endpoint at the given addresses, resolvers without TLS and without subsetting.
\<close>

definition test_service :: "string \<Rightarrow> string \<Rightarrow> string \<Rightarrow> ServiceInstance" where
  "test_service i g h =
     \<lparr>ID = i, Name = ''helloworld'', Version = ''v1'', Metadata = Map.empty,
      Endpoints = [''grpc://'' @ g @ ''?isSecure=false'', ''http://'' @ h @ ''?isSecure=false'']\<rparr>"

definition grpc_only_service :: "string \<Rightarrow> string \<Rightarrow> ServiceInstance" where
  "grpc_only_service i g =
     \<lparr>ID = i, Name = ''helloworld'', Version = ''v1'', Metadata = Map.empty,
      Endpoints = [''grpc://'' @ g @ ''?isSecure=false'']\<rparr>"

definition no_subset :: "string \<Rightarrow> ServiceInstance list \<Rightarrow> int \<Rightarrow> ServiceInstance list" where
  "no_subset k xs n = xs"

definition test_http_resolver :: "(direct_Node, string \<rightharpoonup> int) Default http_resolver" where
  "test_http_resolver = \<lparr>insecure = True, selectorKey = ''key'', subsetSize = 0, rebalancer = wrr_New\<rparr>"

definition test_grpc_resolver :: "grpc_Address list list discoveryResolver" where
  "test_grpc_resolver = \<lparr>insecure = True, selectorKey = ''key'', subsetSize = 0, cc = []\<rparr>"


section \<open>Codecs of the HTTP transport (packages httputil, encoding, transport/http)\<close>

text \<open>\<^verbatim>\<open>strings.Index\<close> for a single character: the first position, \<open>None\<close> for -1.\<close>

fun index_of :: "char \<Rightarrow> string \<Rightarrow> nat option" where
  "index_of c [] = None"
| "index_of c (x # xs) = (if x = c then Some 0 else map_option Suc (index_of c xs))"

definition baseContentType :: string where
  "baseContentType = ''application''"

definition ContentType :: "string \<Rightarrow> string" where
  "ContentType subtype = baseContentType @ ''/'' @ subtype"

definition ContentSubtype :: "string \<Rightarrow> string" where
  "ContentSubtype contentType =
     (case index_of CHR ''/'' contentType of
        None \<Rightarrow> []
      | Some left \<Rightarrow>
          let right = (case index_of CHR '';'' contentType of
                         None \<Rightarrow> length contentType
                       | Some r \<Rightarrow> r)
          in if right < left then []
             else take (right - (left + 1)) (drop (left + 1) contentType))"

text \<open>
  A codec has a name and the two conversions; an error of a conversion is its text. What
  is marshalled is a reply value or an error status. The registry \<^verbatim>\<open>registeredCodecs\<close>
  is a map from content subtypes to codecs, \<open>None\<close> for nil.
\<close>

datatype 'v body = Reply 'v | Status kerror

record 'v Codec =
  codec_Name :: string
  Marshal :: "'v body \<Rightarrow> string + string"
  Unmarshal :: "string \<Rightarrow> string + 'v"

definition GetCodec :: "(string \<rightharpoonup> 'v Codec) \<Rightarrow> string \<Rightarrow> 'v Codec option" where
  "GetCodec registeredCodecs contentSubtype = registeredCodecs contentSubtype"

text \<open>
  The request: its header (canonical keys to value lists), and what \<^verbatim>\<open>io.ReadAll\<close>
  returns on its body, the data and the error if any. \<^verbatim>\<open>Header.Get\<close> is the first value
  of the key or the empty string.
\<close>

record Request =
  Header :: "string \<rightharpoonup> string list"
  Body :: string
  BodyErr :: "string option"

definition header_values :: "(string \<rightharpoonup> string list) \<Rightarrow> string \<Rightarrow> string list" where
  "header_values h k = (case h k of None \<Rightarrow> [] | Some vs \<Rightarrow> vs)"

definition header_Get :: "(string \<rightharpoonup> string list) \<Rightarrow> string \<Rightarrow> string" where
  "header_Get h k = (case header_values h k of [] \<Rightarrow> [] | v # vs \<Rightarrow> v)"

fun codec_loop :: "(string \<rightharpoonup> 'v Codec) \<Rightarrow> string list \<Rightarrow> 'v Codec option" where
  "codec_loop reg [] = None"
| "codec_loop reg (accept # rest) =
     (case GetCodec reg (ContentSubtype accept) of
        Some codec \<Rightarrow> Some codec
      | None \<Rightarrow> codec_loop reg rest)"

definition CodecForRequest ::
  "(string \<rightharpoonup> 'v Codec) \<Rightarrow> Request \<Rightarrow> string \<Rightarrow> 'v Codec option \<times> bool" where
  "CodecForRequest reg r k =
     (case codec_loop reg (header_values (Header r) k) of
        Some codec \<Rightarrow> (Some codec, True)
      | None \<Rightarrow> (GetCodec reg ''json'', False))"

text \<open>
  \<^verbatim>\<open>DefaultRequestDecoder\<close>: the result is the error it returns, or the decoded value,
  \<open>None\<close> when the body is empty and nothing is decoded.
\<close>

definition DefaultRequestDecoder :: "(string \<rightharpoonup> 'v Codec) \<Rightarrow> Request \<Rightarrow> ('v option) res" where
  "DefaultRequestDecoder reg r =
     (case CodecForRequest reg r ''Content-Type'' of
        (codec, False) \<Rightarrow>
          Err (BadRequest ''CODEC''
                 (''unregister Content-Type: '' @ header_Get (Header r) ''Content-Type''))
      | (codec, True) \<Rightarrow>
          (case BodyErr r of
             Some e \<Rightarrow> Err (BadRequest ''CODEC'' e)
           | None \<Rightarrow>
               if length (Body r) = 0 then Ok None
               else case codec of
                      None \<Rightarrow> Panic
                    | Some c \<Rightarrow>
                        (case Unmarshal c (Body r) of
                           Inl e \<Rightarrow> Err (BadRequest ''CODEC'' (''body unmarshal '' @ e))
                         | Inr v \<Rightarrow> Ok (Some v))))"

text \<open>
  The response writer: header, status code once written, body. A handler's result is nil,
  a redirector or a value. The encoders return the writer and the error they return, if
  any; calling a method of a nil codec panics. \<^verbatim>\<open>http.Redirect\<close> is kept to the location
  header and the status it writes.
\<close>

record ResponseWriter =
  w_Header :: "string \<rightharpoonup> string list"
  w_Status :: "int option"
  w_Body :: string

datatype 'v reply = NilReply | Redirector string int | Value 'v

definition DefaultResponseEncoder ::
  "(string \<rightharpoonup> 'v Codec) \<Rightarrow> ResponseWriter \<Rightarrow> Request \<Rightarrow> 'v reply \<Rightarrow>
   (ResponseWriter \<times> string option) res" where
  "DefaultResponseEncoder reg w r v =
     (case v of
        NilReply \<Rightarrow> Ok (w, None)
      | Redirector url c \<Rightarrow>
          Ok (w\<lparr>w_Header := (w_Header w)(''Location'' \<mapsto> [url]), w_Status := Some c\<rparr>, None)
      | Value x \<Rightarrow>
          (case fst (CodecForRequest reg r ''Accept'') of
             None \<Rightarrow> Panic
           | Some codec \<Rightarrow>
               (case Marshal codec (Reply x) of
                  Inl e \<Rightarrow> Ok (w, Some e)
                | Inr data \<Rightarrow>
                    Ok (w\<lparr>w_Header := (w_Header w)(''Content-Type'' \<mapsto> [ContentType (codec_Name codec)]),
                          w_Body := w_Body w @ data\<rparr>, None))))"

definition DefaultErrorEncoder ::
  "(string \<rightharpoonup> 'v Codec) \<Rightarrow> ResponseWriter \<Rightarrow> Request \<Rightarrow> kerror \<Rightarrow> ResponseWriter res" where
  "DefaultErrorEncoder reg w r se =
     (case fst (CodecForRequest reg r ''Accept'') of
        None \<Rightarrow> Panic
      | Some codec \<Rightarrow>
          (case Marshal codec (Status se) of
             Inl e \<Rightarrow> Ok (w\<lparr>w_Status := Some 500\<rparr>)
           | Inr data \<Rightarrow>
               Ok (w\<lparr>w_Header := (w_Header w)(''Content-Type'' \<mapsto> [ContentType (codec_Name codec)]),
                     w_Status := Some (Code se),
                     w_Body := w_Body w @ data\<rparr>)))"

text \<open>
  Codecs to run the functions on: a codec tags what it converts with its name, so that
  the result shows which codec did the work. The registry holds the codecs the server
  registers: json, proto and xml.
\<close>

definition tag_codec :: "string \<Rightarrow> (string \<times> string) Codec" where
  "tag_codec nm =
     \<lparr>codec_Name = nm,
      Marshal = (\<lambda>b. case b of Reply (t, d) \<Rightarrow> Inr (nm @ '':'' @ d)
                               | Status e \<Rightarrow> Inr (nm @ '':'' @ Reason e)),
      Unmarshal = (\<lambda>d. Inr (nm, d))\<rparr>"

definition test_registry :: "string \<rightharpoonup> (string \<times> string) Codec" where
  "test_registry =
     [''json'' \<mapsto> tag_codec ''json'', ''proto'' \<mapsto> tag_codec ''proto'', ''xml'' \<mapsto> tag_codec ''xml'']"

definition test_request :: "string \<Rightarrow> string \<Rightarrow> Request" where
  "test_request k v = \<lparr>Header = [k \<mapsto> [v]], Body = ''{}'', BodyErr = None\<rparr>"

definition empty_writer :: ResponseWriter where
  "empty_writer = \<lparr>w_Header = Map.empty, w_Status = None, w_Body = []\<rparr>"


section \<open>Middleware matcher (package matcher)\<close>

text \<open>
  The matcher holds the prefixes, the default middleware and the map from selectors to
  middleware; \<open>'m\<close> is the type of a middleware. The field \<^verbatim>\<open>prefix\<close> is \<open>prefix_list\<close>
  here. \<^verbatim>\<open>sort.Slice\<close> with \<^verbatim>\<open>prefix[i] > prefix[j]\<close> puts the strings in descending
  order of Go's string comparison, which is the lexicographic order of the bytes; equal
  strings cannot be told apart, so the result is \<open>rev (sort ps)\<close>.
\<close>

record 'm matcher =
  prefix_list :: "string list"
  defaults :: "'m list"
  matches :: "string \<rightharpoonup> 'm list"

definition matcher_New :: "'m matcher" where
  "matcher_New = \<lparr>prefix_list = [], defaults = [], matches = Map.empty\<rparr>"

definition Use :: "'m matcher \<Rightarrow> 'm list \<Rightarrow> 'm matcher" where
  "Use m ms = m\<lparr>defaults := ms\<rparr>"

definition HasSuffix_star :: "string \<Rightarrow> bool" where
  "HasSuffix_star s = (s \<noteq> [] \<and> last s = CHR ''*'')"

definition TrimSuffix_star :: "string \<Rightarrow> string" where
  "TrimSuffix_star s = (if HasSuffix_star s then butlast s else s)"

definition sort_desc :: "string list \<Rightarrow> string list" where
  "sort_desc ps = rev (sort ps)"

definition Add :: "'m matcher \<Rightarrow> string \<Rightarrow> 'm list \<Rightarrow> 'm matcher" where
  "Add m selector ms =
     (if HasSuffix_star selector
      then let sel = TrimSuffix_star selector
           in m\<lparr>prefix_list := sort_desc (prefix_list m @ [sel]),
                matches := (matches m)(sel \<mapsto> ms)\<rparr>
      else m\<lparr>matches := (matches m)(selector \<mapsto> ms)\<rparr>)"

fun match_prefix :: "(string \<rightharpoonup> 'm list) \<Rightarrow> string list \<Rightarrow> string \<Rightarrow> 'm list option" where
  "match_prefix mt [] operation = None"
| "match_prefix mt (p # ps) operation =
     (if prefix p operation then Some (case mt p of None \<Rightarrow> [] | Some ms \<Rightarrow> ms)
      else match_prefix mt ps operation)"

definition Match :: "'m matcher \<Rightarrow> string \<Rightarrow> 'm list" where
  "Match m operation =
     (let ms = defaults m
      in case matches m operation of
           Some next \<Rightarrow> ms @ next
         | None \<Rightarrow>
             (case match_prefix (matches m) (prefix_list m) operation of
                Some next \<Rightarrow> ms @ next
              | None \<Rightarrow> ms))"

text \<open>A matcher set up by \<^verbatim>\<open>Use\<close> and then the calls of \<^verbatim>\<open>Add\<close> in the given order.\<close>

definition registered :: "'m list \<Rightarrow> (string \<times> 'm list) list \<Rightarrow> 'm matcher" where
  "registered dflt regs = foldl (\<lambda>m (sel, ms). Add m sel ms) (Use matcher_New dflt) regs"

text \<open>
  The wording of the matching rule, on the registrations themselves: the exact selectors
  and the prefix selectors (without their star) with their middleware, the entry of a
  selector being the one registered last; the longest registered prefix of an operation;
  and the list the rule gives.
\<close>

definition exact_regs :: "(string \<times> 'm list) list \<Rightarrow> (string \<times> 'm list) list" where
  "exact_regs regs = filter (\<lambda>(sel, ms). \<not> HasSuffix_star sel) regs"

definition prefix_regs :: "(string \<times> 'm list) list \<Rightarrow> (string \<times> 'm list) list" where
  "prefix_regs regs =
     map (\<lambda>(sel, ms). (butlast sel, ms)) (filter (\<lambda>(sel, ms). HasSuffix_star sel) regs)"

definition entry_of :: "(string \<times> 'm list) list \<Rightarrow> string \<Rightarrow> 'm list option" where
  "entry_of kvs k = map_of (rev kvs) k"

fun longest :: "string list \<Rightarrow> string option" where
  "longest [] = None"
| "longest (p # ps) =
     (case longest ps of
        None \<Rightarrow> Some p
      | Some b \<Rightarrow> if length b < length p then Some p else Some b)"

definition longest_prefix :: "(string \<times> 'm list) list \<Rightarrow> string \<Rightarrow> string option" where
  "longest_prefix regs operation =
     longest (filter (\<lambda>p. prefix p operation) (map fst (prefix_regs regs)))"

definition rule_Match :: "'m list \<Rightarrow> (string \<times> 'm list) list \<Rightarrow> string \<Rightarrow> 'm list" where
  "rule_Match dflt regs operation =
     dflt @ (case entry_of (exact_regs regs) operation of
               Some ms \<Rightarrow> ms
             | None \<Rightarrow>
                 (case longest_prefix regs operation of
                    None \<Rightarrow> []
                  | Some p \<Rightarrow>
                      (case entry_of (prefix_regs regs) p of None \<Rightarrow> [] | Some ms \<Rightarrow> ms)))"

text \<open>No exact selector is a prefix selector without its star.\<close>

definition no_collision :: "(string \<times> 'm list) list \<Rightarrow> bool" where
  "no_collision regs =
     list_all (\<lambda>e. e \<notin> set (map fst (prefix_regs regs))) (map fst (exact_regs regs))"

text \<open>The registrations of the matcher scenario, middleware by name.\<close>

definition scenario_regs :: "(string \<times> string list) list" where
  "scenario_regs =
     [(''/foo/bar/*'', [''M1'']), (''/foo/*'', [''M2'']), (''/foo/bar/baz'', [''M3''])]"


section \<open>EWMA weighted node (package ewma)\<close>

text \<open>
  Machine integers: an \<^verbatim>\<open>int64\<close> result is wrapped by \<open>i64\<close>, a conversion to \<^verbatim>\<open>uint64\<close>
  by \<open>u64\<close>, a \<^verbatim>\<open>uint64\<close> product by \<open>mul64\<close>; \<open>tdiv\<close> is Go's integer division, which
  truncates towards zero. Times are nanoseconds.
\<close>

definition i64 :: "int \<Rightarrow> int" where
  "i64 x = (x + 2 ^ 63) mod 2 ^ 64 - 2 ^ 63"

definition u64 :: "int \<Rightarrow> nat" where
  "u64 x = nat (x mod 2 ^ 64)"

definition mul64 :: "nat \<Rightarrow> nat \<Rightarrow> nat" where
  "mul64 a b = (a * b) mod 2 ^ 64"

definition tdiv :: "int \<Rightarrow> int \<Rightarrow> int" where
  "tdiv a b = sgn a * sgn b * (\<bar>a\<bar> div \<bar>b\<bar>)"

definition penalty :: nat where
  "penalty = 1000 * 100"

definition Millisecond :: int where
  "Millisecond = 1000000"

text \<open>
  \<^verbatim>\<open>int64(math.Sqrt(float64(x)))\<close>: for \<open>0 \<le> x < 2^52\<close> the conversion to float64 is
  exact and the correctly rounded root, truncated, is the integer square root \<open>isqrt\<close>.
  Outside this range (a negative \<open>x\<close> gives NaN, whose conversion Go leaves to the
  platform) the model gives no value.
\<close>

function isqrt :: "nat \<Rightarrow> nat" where
  "isqrt n =
     (if n < 2 then n
      else let r = 2 * isqrt (n div 4)
           in if (r + 1) * (r + 1) \<le> n then r + 1 else r)"
  by pat_completeness auto
termination
  by (relation "measure id") auto

declare isqrt.simps [simp del]

definition sqrt_trunc :: "int \<Rightarrow> nat option" where
  "sqrt_trunc x = (if x < 0 \<or> 2 ^ 52 \<le> x then None else Some (isqrt (nat x)))"

text \<open>
  A weight is the float64 quotient of two unsigned integers, kept as the pair (division
  by a zero load is the float's infinity or NaN, not an error), or not determined when
  the load is not. The node: the statistics of \<^verbatim>\<open>ewma.Node\<close>, the ring \<^verbatim>\<open>inflights\<close> of
  200 start times (0 for a free slot) and the cached weight, \<open>None\<close> before the first
  \<^verbatim>\<open>Store\<close>. The error handler is only used by the completion callback.
\<close>

datatype weight_val = Quot nat nat | Undetermined

record nodeWeight =
  weight_value :: weight_val
  updateAt :: int

record ewma_Node =
  ewma_raw :: DefaultNode
  lag :: int
  success :: nat
  inflight :: int
  inflights :: "int list"
  stamp :: int
  reqs :: int
  lastPick :: int
  cachedWeight :: "nodeWeight option"

definition ewma_Build :: "DefaultNode \<Rightarrow> ewma_Node" where
  "ewma_Build n =
     \<lparr>ewma_raw = n, lag = 0, success = 1000, inflight = 1, inflights = replicate 200 0,
      stamp = 0, reqs = 0, lastPick = 0, cachedWeight = None\<rparr>"

definition health :: "ewma_Node \<Rightarrow> nat" where
  "health n = success n"

text \<open>The loop of \<^verbatim>\<open>predict\<close> over the ring, on (total, slowNum, totalNum), the total as \<open>tot\<close>.\<close>

fun predict_loop :: "int \<Rightarrow> int \<Rightarrow> int list \<Rightarrow> int \<times> nat \<times> nat \<Rightarrow> int \<times> nat \<times> nat" where
  "predict_loop avgLag now [] st = st"
| "predict_loop avgLag now (start # rest) (tot, slowNum, totalNum) =
     (if start \<noteq> 0
      then let lg = i64 (now - start)
           in if lg > avgLag
              then predict_loop avgLag now rest (i64 (tot + lg), slowNum + 1, totalNum + 1)
              else predict_loop avgLag now rest (tot, slowNum, totalNum + 1)
      else predict_loop avgLag now rest (tot, slowNum, totalNum))"

definition predict :: "ewma_Node \<Rightarrow> int \<Rightarrow> int \<Rightarrow> int" where
  "predict n avgLag now =
     (case predict_loop avgLag now (inflights n) (0, 0, 0) of
        (tot, slowNum, totalNum) \<Rightarrow>
          if slowNum \<ge> totalNum div 2 + 1 then tdiv tot (int slowNum) else 0)"

definition load :: "ewma_Node \<Rightarrow> int \<Rightarrow> nat option" where
  "load n now =
     (let avgLag = lag n;
          pr = predict n avgLag now
      in if avgLag = 0 then Some (mul64 penalty (u64 (inflight n)))
         else let avgLag = (if pr > avgLag then pr else avgLag);
                  avgLag = i64 (avgLag + Millisecond * 5)
              in case sqrt_trunc avgLag of
                   None \<Rightarrow> None
                 | Some root \<Rightarrow> Some (mul64 root (u64 (inflight n))))"

text \<open>
  \<^verbatim>\<open>Weight()\<close> reads the clock once itself (\<open>now\<close>) and once more inside \<^verbatim>\<open>load()\<close>
  (\<open>now'\<close>); it returns the weight and leaves the node with its cache.
\<close>

definition ewma_Weight :: "ewma_Node \<Rightarrow> int \<Rightarrow> int \<Rightarrow> weight_val \<times> ewma_Node" where
  "ewma_Weight n now now' =
     (let recompute =
            (let h = health n;
                 wv = (case load n now' of
                         None \<Rightarrow> Undetermined
                       | Some l \<Rightarrow> Quot (mul64 (mul64 h 1000) 10) l)
             in (wv, n\<lparr>cachedWeight := Some \<lparr>weight_value = wv, updateAt = now\<rparr>\<rparr>))
      in case cachedWeight n of
           None \<Rightarrow> recompute
         | Some w \<Rightarrow>
             if i64 (now - updateAt w) > Millisecond * 5 then recompute
             else (weight_value w, n))"

text \<open>
  \<^verbatim>\<open>Pick()\<close> at clock reading \<open>start\<close>: the slot is \<^verbatim>\<open>reqs % 200\<close> (Go's remainder has the
  sign of \<open>reqs\<close>; a negative index panics), claimed only when it holds 0.
\<close>

definition ewma_Pick :: "ewma_Node \<Rightarrow> int \<Rightarrow> (DoneFunc \<times> ewma_Node) res" where
  "ewma_Pick n start =
     (let r = i64 (reqs n + 1);
          n' = n\<lparr>lastPick := start, inflight := i64 (inflight n + 1), reqs := r\<rparr>;
          slot = r - 200 * tdiv r 200
      in if slot < 0 \<or> int (length (inflights n)) \<le> slot then Panic
         else let swapped = (inflights n ! nat slot = 0)
              in Ok (EwmaDone start (nat slot) swapped,
                     if swapped then n'\<lparr>inflights := (inflights n)[nat slot := start]\<rparr> else n'))"

definition PickElapsed :: "ewma_Node \<Rightarrow> int \<Rightarrow> int" where
  "PickElapsed n now = i64 (now - lastPick n)"

text \<open>
  The wording of the weight rule, to compare \<^verbatim>\<open>Weight()\<close> with: the ages of the occupied
  slots, the slow ones among them, the prediction, the load and the weight.
\<close>

definition ages :: "ewma_Node \<Rightarrow> int \<Rightarrow> int list" where
  "ages n now = map (\<lambda>start. now - start) (filter (\<lambda>start. start \<noteq> 0) (inflights n))"

definition slow_ages :: "ewma_Node \<Rightarrow> int \<Rightarrow> int list" where
  "slow_ages n now = filter (\<lambda>a. a > lag n) (ages n now)"

definition rule_predict :: "ewma_Node \<Rightarrow> int \<Rightarrow> int" where
  "rule_predict n now =
     (if 2 * length (slow_ages n now) > length (ages n now)
      then sum_list (slow_ages n now) div int (length (slow_ages n now))
      else 0)"

definition rule_load :: "ewma_Node \<Rightarrow> int \<Rightarrow> nat" where
  "rule_load n now =
     (if lag n = 0 then 100000 * nat (inflight n)
      else isqrt (nat (max (lag n) (rule_predict n now) + 5000000)) * nat (inflight n))"

definition rule_weight :: "ewma_Node \<Rightarrow> int \<Rightarrow> weight_val" where
  "rule_weight n now = Quot (success n * 10000) (rule_load n now)"

text \<open>
  The ranges in which the 64-bit operations do not wrap and the root is determined: the
  smoothed lag and every age of an occupied slot between 0 and \<open>2^50\<close> ns (13 days), a
  ring of at most 200 slots, a success rate of at most 1000 and between 0 and \<open>2^32\<close>
  requests in flight.
\<close>

definition in_range :: "ewma_Node \<Rightarrow> int \<Rightarrow> bool" where
  "in_range n now =
     (0 \<le> lag n \<and> lag n < 2 ^ 50
      \<and> list_all (\<lambda>a. 0 \<le> a \<and> a < 2 ^ 50) (ages n now)
      \<and> length (inflights n) \<le> 200
      \<and> success n \<le> 1000
      \<and> 0 \<le> inflight n \<and> inflight n < 2 ^ 32)"


text \<open>
  The cache test as the weight rule is first worded, "younger than 5 ms"; and two nodes
  to run \<^verbatim>\<open>Weight()\<close> on: one with a smoothed lag of 1 ns, a free ring and a weight
  cached at time 1000, one with a smoothed lag of 4 ms, three requests in flight since
  the times 10 ms, 14 ms and 19 ms, and no cached weight.
\<close>

definition younger_than_5ms :: "ewma_Node \<Rightarrow> int \<Rightarrow> bool" where
  "younger_than_5ms n now =
     (case cachedWeight n of None \<Rightarrow> False | Some w \<Rightarrow> now - updateAt w < 5 * Millisecond)"

definition cached_node :: ewma_Node where
  "cached_node =
     (ewma_Build node_8080)\<lparr>lag := 1,
        cachedWeight := Some \<lparr>weight_value = Quot 7 1, updateAt = 1000\<rparr>\<rparr>"

definition busy_node :: ewma_Node where
  "busy_node =
     (ewma_Build node_8080)\<lparr>lag := 4000000, inflight := 3,
        inflights := [10000000, 14000000, 19000000] @ replicate 197 0\<rparr>"


section \<open>Chain: nesting and order of execution\<close>

lemma chain_loop_take:
  "k \<le> length m \<Longrightarrow> chain_loop m k next = foldr (\<lambda>mi h. mi h) (take k m) next"
proof (induction k arbitrary: "next")
  case 0
  then show ?case by simp
next
  case (Suc k)
  then have "take (Suc k) m = take k m @ [m ! k]"
    by (simp add: take_Suc_conv_app_nth)
  with Suc show ?case by simp
qed

lemma Chain_foldr: "Chain m next = foldr (\<lambda>mi h. mi h) m next"
  by (simp add: Chain_def chain_loop_take)

lemma Chain_Nil: "Chain [] next = next"
  by (simp add: Chain_foldr)

lemma Chain_Cons: "Chain (m1 # ms) next = m1 (Chain ms next)"
  by (simp add: Chain_foldr)

lemma hooked_apply:
  "hooked a next log req =
     (fst (next (log @ [Pre a]) req), snd (next (log @ [Pre a]) req) @ [Post a])"
  by (simp add: hooked_def split: prod.splits)

lemma Chain_hooked:
  "Chain (map hooked as) H log req =
     (fst (H (log @ map Pre as) req), snd (H (log @ map Pre as) req) @ map Post (rev as))"
proof (induction as arbitrary: log)
  case Nil
  then show ?case by (simp add: Chain_Nil)
next
  case (Cons a as)
  have "Chain (map hooked (a # as)) H log req = hooked a (Chain (map hooked as) H) log req"
    by (simp add: Chain_Cons)
  also have "\<dots> = (fst (Chain (map hooked as) H (log @ [Pre a]) req),
                     snd (Chain (map hooked as) H (log @ [Pre a]) req) @ [Post a])"
    by (rule hooked_apply)
  finally show ?case by (simp add: Cons.IH)
qed

text \<open>
  C2. \<open>Chain [m1, ..., mn] H\<close> is \<open>m1 (m2 (... (mn H)))\<close>: the empty chain is \<open>H\<close> and
  the first middleware wraps the chain of the rest. Run on a log, the chain of hooked
  middlewares \<open>as\<close> over the terminal handler records the pre-hooks in listed order, the
  terminal handler, then the post-hooks in reverse order.
\<close>

theorem C2_chain_order:
  "Chain [] H = H
   \<and> Chain (m1 # ms) H = m1 (Chain ms H)
   \<and> Chain ms H = foldr (\<lambda>mi h. mi h) ms H
   \<and> Chain (map hooked as) (terminal f) log req =
       (f req, log @ map Pre as @ [Terminal] @ map Post (rev as))"
  by (simp add: Chain_Nil Chain_Cons Chain_foldr [symmetric] Chain_hooked terminal_def)

theorem C2_chain_order_witness:
  "Chain (map hooked [''A'', ''B'', ''C'']) (terminal (\<lambda>q. Suc q)) [] (1::nat) =
     (2, [Pre ''A'', Pre ''B'', Pre ''C'', Terminal, Post ''C'', Post ''B'', Post ''A''])"
  using C2_chain_order [of "terminal (\<lambda>q. Suc q)" "hooked ''A''" "[]" "[''A'', ''B'', ''C'']"
      "\<lambda>q. Suc q" "[]" "1::nat"]
  by simp


section \<open>Node construction and the direct weight\<close>

lemma NewNode_weight_unparsed:
  "Metadata i ''weight'' = Some str \<Longrightarrow> ParseInt str = None \<Longrightarrow>
   weight (NewNode sch a (Some i)) = None"
  by (simp add: NewNode_def)

lemma NewNode_weight_absent:
  "Metadata i ''weight'' = None \<Longrightarrow> weight (NewNode sch a (Some i)) = None"
  by (simp add: NewNode_def)

text \<open>
  C10. When the metadata has a "weight" entry that \<^verbatim>\<open>ParseInt\<close> rejects, \<^verbatim>\<open>NewNode\<close>
  still returns a node (it has no error result), its \<^verbatim>\<open>InitialWeight\<close> is nil, the direct
  node built from it has weight 100, and this is the weight of the node built from the
  same instance without the "weight" entry.
\<close>

theorem C10_malformed_weight:
  assumes "Metadata i ''weight'' = Some str" and "ParseInt str = None"
  shows "InitialWeight (NewNode sch a (Some i)) = None
         \<and> direct_Weight (direct_Build (NewNode sch a (Some i))) = 100
         \<and> direct_Weight (direct_Build (NewNode sch a (Some i))) =
             direct_Weight (direct_Build
               (NewNode sch a (Some (i\<lparr>Metadata := (Metadata i)(''weight'' := None)\<rparr>))))
         \<and> addr (NewNode sch a (Some i)) = a
         \<and> metadata (NewNode sch a (Some i)) = Metadata i"
proof -
  have w: "weight (NewNode sch a (Some i)) = None"
    using assms by (rule NewNode_weight_unparsed)
  have w': "weight (NewNode sch a (Some (i\<lparr>Metadata := (Metadata i)(''weight'' := None)\<rparr>))) = None"
    by (rule NewNode_weight_absent) simp
  have m: "addr (NewNode sch a (Some i)) = a \<and> metadata (NewNode sch a (Some i)) = Metadata i"
    using assms by (simp add: NewNode_def)
  show ?thesis
    using w w' m
    by (simp add: InitialWeight_def direct_Weight_def direct_Build_def defaultWeight_def)
qed

theorem C10_malformed_weight_witness:
  "Metadata \<lparr>ID = ''i1'', Name = ''helloworld'', Version = ''v1'',
             Metadata = [''weight'' \<mapsto> ''1O''], Endpoints = []\<rparr> ''weight'' = Some ''1O''
   \<and> ParseInt ''1O'' = None
   \<and> ParseInt ''9223372036854775808'' = None
   \<and> ParseInt ''-9223372036854775808'' = Some (- 9223372036854775808)
   \<and> ParseInt ''10'' = Some 10
   \<and> direct_Weight (direct_Build (NewNode ''http'' ''127.0.0.1:9090''
        (Some \<lparr>ID = ''i1'', Name = ''helloworld'', Version = ''v1'',
               Metadata = [''weight'' \<mapsto> ''1O''], Endpoints = []\<rparr>))) = 100"
proof -
  have p: "ParseInt ''1O'' = None"
    by (simp add: ParseInt_def is_digit_def less_eq_char_def)
  have q: "ParseInt ''9223372036854775808'' = None"
    by (simp add: ParseInt_def is_digit_def less_eq_char_def digits_value_def digit_val_def)
  have r: "ParseInt ''-9223372036854775808'' = Some (- 9223372036854775808)"
    by (simp add: ParseInt_def is_digit_def less_eq_char_def digits_value_def digit_val_def)
  have t: "ParseInt ''10'' = Some 10"
    by (simp add: ParseInt_def is_digit_def less_eq_char_def digits_value_def digit_val_def)
  show ?thesis
    using C10_malformed_weight [of "\<lparr>ID = ''i1'', Name = ''helloworld'', Version = ''v1'',
             Metadata = [''weight'' \<mapsto> ''1O''], Endpoints = []\<rparr>" "''1O''"
             "''http''" "''127.0.0.1:9090''"] p q r t
    by simp
qed


section \<open>Selecting from the snapshot\<close>

lemma Intn_less: "0 < n \<Longrightarrow> \<exists>k < n. Intn r n = Ok k"
  by (simp add: Intn_def)

lemma random_Pick_member:
  assumes "nodes \<noteq> []"
  shows "\<exists>wn dn p'. random_Pick PickN r p nodes = Ok (wn, Some dn, p') \<and> wn \<in> set nodes"
proof -
  from assms have "0 < length nodes" by simp
  then obtain k where "k < length nodes" and "Intn r (length nodes) = Ok k"
    using Intn_less by blast
  with assms show ?thesis
    by (simp add: random_Pick_def Let_def)
qed

lemma wrr_loop_selected:
  "wrr_loop A W ns (t, cw, s, sw) = (t', cw', s', sw') \<Longrightarrow> ns \<noteq> [] \<or> s \<noteq> None \<Longrightarrow>
   \<exists>x. s' = Some x \<and> (x \<in> set ns \<or> s = Some x)"
proof (induction ns arbitrary: t cw s sw)
  case Nil
  then show ?case by auto
next
  case (Cons n ns)
  show ?case
  proof (cases "s = None \<or> sw < f64 (cw_get cw (A n) + W n)")
    case True
    with Cons.prems(1)
    have "wrr_loop A W ns (f64 (t + W n), cw(A n \<mapsto> f64 (cw_get cw (A n) + W n)), Some n,
            f64 (cw_get cw (A n) + W n)) = (t', cw', s', sw')"
      by (simp add: Let_def)
    from Cons.IH [OF this] show ?thesis by auto
  next
    case False
    with Cons.prems(1)
    have "wrr_loop A W ns (f64 (t + W n), cw(A n \<mapsto> f64 (cw_get cw (A n) + W n)), s, sw) =
            (t', cw', s', sw')"
      by (simp add: Let_def)
    from Cons.IH [OF this] False show ?thesis by auto
  qed
qed

lemma wrr_Pick_member:
  assumes "nodes \<noteq> []"
  shows "\<exists>wn dn p'. wrr_Pick A W PickN p nodes = Ok (wn, Some dn, p') \<and> wn \<in> set nodes"
proof -
  obtain t' cw' s' sw' where l: "wrr_loop A W nodes (0, p, None, 0) = (t', cw', s', sw')"
    by (cases "wrr_loop A W nodes (0, p, None, 0)") auto
  from wrr_loop_selected [OF l] assms obtain x where "s' = Some x" and "x \<in> set nodes"
    by auto
  with l assms show ?thesis
    by (simp add: wrr_Pick_def)
qed

lemma apply_filters_subset:
  "(\<And>f xs. f \<in> set fs \<Longrightarrow> set (f xs) \<subseteq> set xs) \<Longrightarrow> set (apply_filters fs nodes) \<subseteq> set nodes"
  unfolding apply_filters_def
proof (induction fs arbitrary: nodes)
  case Nil
  then show ?case by simp
next
  case (Cons f fs)
  have "set (foldl (\<lambda>newNodes f. f newNodes) (f nodes) fs) \<subseteq> set (f nodes)"
    by (rule Cons.IH) (simp add: Cons.prems)
  also have "\<dots> \<subseteq> set nodes"
    by (simp add: Cons.prems)
  finally show ?case by simp
qed

lemma Select_candidates:
  "Select Raw pick d ctx opts =
     (case snapshot d of
        None \<Rightarrow> Err ErrNoAvailable
      | Some nodes \<Rightarrow>
          if apply_filters (select_filters opts) nodes = [] then Err ErrNoAvailable
          else case pick (Balancer d) (apply_filters (select_filters opts) nodes) of
                 Err e \<Rightarrow> Err e
               | Panic \<Rightarrow> Panic
               | Ok (wn, dn, b') \<Rightarrow>
                   Ok (Raw wn, dn, map_option (\<lambda>p. p\<lparr>PeerNode := Some (Raw wn)\<rparr>) ctx,
                       d\<lparr>Balancer := b'\<rparr>))"
  by (cases "select_filters opts")
     (simp_all add: Select_def select_filters_def apply_filters_def Let_def split: option.splits)


lemma prePick_indices:
  assumes "2 \<le> length nodes"
  shows "prePick r1 r2 nodes =
           Ok (nodes ! (r1 mod length nodes),
               nodes ! (if r2 mod (length nodes - 1) \<ge> r1 mod length nodes
                        then r2 mod (length nodes - 1) + 1 else r2 mod (length nodes - 1)))"
proof -
  from assms have n: "0 < length nodes" and m: "0 < length nodes - 1" by linarith+
  have a: "r1 mod length nodes < length nodes" by (rule mod_less_divisor [OF n])
  have b: "r2 mod (length nodes - 1) < length nodes - 1" by (rule mod_less_divisor [OF m])
  from b have b1: "r2 mod (length nodes - 1) + 1 < length nodes" by linarith
  from b have b2: "r2 mod (length nodes - 1) < length nodes" by linarith
  from n m have z: "length nodes \<noteq> 0" "length nodes - 1 \<noteq> 0" by linarith+
  show ?thesis
    unfolding prePick_def Intn_def Let_def using a b1 b2 z by (simp del: One_nat_def)
qed

lemma p2c_Pick_member:
  fixes W :: "'w \<Rightarrow> 'v::linorder"
  assumes "nodes \<noteq> []"
  shows "\<exists>wn dn p'. p2c_Pick W E PickN r1 r2 p nodes = Ok (wn, Some dn, p') \<and> wn \<in> set nodes"
proof (cases "length nodes = 1")
  case True
  then show ?thesis by (simp add: p2c_Pick_def)
next
  case False
  with assms have two: "2 \<le> length nodes"
    by (cases nodes) (auto simp: Suc_le_eq)
  let ?a = "r1 mod length nodes"
  let ?c = "r2 mod (length nodes - 1)"
  let ?b = "if ?c \<ge> ?a then ?c + 1 else ?c"
  from two have n: "0 < length nodes" and m: "0 < length nodes - 1" by linarith+
  have a: "?a < length nodes" by (rule mod_less_divisor [OF n])
  have "?c < length nodes - 1" by (rule mod_less_divisor [OF m])
  then have b: "?b < length nodes" by (auto simp del: One_nat_def)
  from a b have "nodes ! ?a \<in> set nodes" "nodes ! ?b \<in> set nodes"
    by (simp_all del: One_nat_def)
  then show ?thesis
    using two False prePick_indices [OF two, of r1 r2]
    by (auto simp: p2c_Pick_def CompareAndSwapInt64_def Let_def simp del: One_nat_def split: if_splits)
qed

text \<open>
  C1. \<^verbatim>\<open>ErrNoAvailable\<close> is \<^verbatim>\<open>ServiceUnavailable("no_available_node", "")\<close>, code 503.
  \<^verbatim>\<open>Select\<close> returns it on a selector that was only built, and, with node filters that
  return some of the nodes they are given, after \<^verbatim>\<open>Apply([])\<close> and whenever the filters
  leave no candidate. After \<^verbatim>\<open>Apply(ns)\<close>, when the filters leave a candidate and the
  balancer picks a member of a non-empty candidate list, with a callback, \<^verbatim>\<open>Select\<close>
  returns one of the applied nodes, a callback and no error. The random, wrr and p2c
  balancers all pick in this way.
\<close>

theorem C1_select_no_available:
  fixes Wf :: "'x \<Rightarrow> 'v::linorder"
  assumes filt: "\<forall>f \<in> set (select_filters opts). \<forall>xs. set (f xs) \<subseteq> set xs"
    and bal: "\<forall>b cs. cs \<noteq> [] \<longrightarrow> (\<exists>wn dn b'. pick b cs = Ok (wn, Some dn, b') \<and> wn \<in> set cs)"
    and raw: "\<forall>n. Raw (Build n) = n"
  shows "ErrNoAvailable = ServiceUnavailable ''no_available_node'' []
         \<and> IsServiceUnavailable ErrNoAvailable \<and> Reason ErrNoAvailable = ''no_available_node''
         \<and> Select Raw pick (DefaultBuilder_Build bs) ctx opts = Err ErrNoAvailable
         \<and> Select Raw pick (Apply Build d []) ctx opts = Err ErrNoAvailable
         \<and> (apply_filters (select_filters opts) (map Build ns) = [] \<longrightarrow>
              Select Raw pick (Apply Build d ns) ctx opts = Err ErrNoAvailable)
         \<and> (apply_filters (select_filters opts) (map Build ns) \<noteq> [] \<longrightarrow>
              (\<exists>n dn ctx' d'. Select Raw pick (Apply Build d ns) ctx opts = Ok (n, Some dn, ctx', d')
                 \<and> n \<in> set ns \<and> Address n \<in> Address ` set ns))
         \<and> (cs \<noteq> [] \<longrightarrow>
              (\<exists>wn dn p'. random_Pick PickN r p cs = Ok (wn, Some dn, p') \<and> wn \<in> set cs)
              \<and> (\<exists>wn dn p'. wrr_Pick A W PickN cw cs = Ok (wn, Some dn, p') \<and> wn \<in> set cs)
              \<and> (\<exists>wn dn p'. p2c_Pick Wf E PickN ra rb s cs = Ok (wn, Some dn, p') \<and> wn \<in> set cs))"
proof -
  have sub: "\<And>nodes. set (apply_filters (select_filters opts) nodes) \<subseteq> set nodes"
    by (rule apply_filters_subset) (use filt in blast)
  have e1: "ErrNoAvailable = ServiceUnavailable ''no_available_node'' []
            \<and> IsServiceUnavailable ErrNoAvailable \<and> Reason ErrNoAvailable = ''no_available_node''"
    by (simp add: ErrNoAvailable_def ServiceUnavailable_def IsServiceUnavailable_def errors_New_def)
  have e2: "Select Raw pick (DefaultBuilder_Build bs) ctx opts = Err ErrNoAvailable"
    by (simp add: Select_candidates DefaultBuilder_Build_def)
  have "apply_filters (select_filters opts) ([] :: 'a list) = []"
    using sub [of "[]"] by simp
  then have e3: "Select Raw pick (Apply Build d []) ctx opts = Err ErrNoAvailable"
    by (simp add: Select_candidates Apply_def)
  have e4: "apply_filters (select_filters opts) (map Build ns) = [] \<longrightarrow>
              Select Raw pick (Apply Build d ns) ctx opts = Err ErrNoAvailable"
    by (simp add: Select_candidates Apply_def)
  have e5: "apply_filters (select_filters opts) (map Build ns) \<noteq> [] \<longrightarrow>
              (\<exists>n dn ctx' d'. Select Raw pick (Apply Build d ns) ctx opts = Ok (n, Some dn, ctx', d')
                 \<and> n \<in> set ns \<and> Address n \<in> Address ` set ns)"
  proof
    let ?cs = "apply_filters (select_filters opts) (map Build ns)"
    assume ne: "?cs \<noteq> []"
    with bal obtain wn dn b' where
      pk: "pick (Balancer (Apply Build d ns)) ?cs = Ok (wn, Some dn, b')" and mem: "wn \<in> set ?cs"
      by blast
    from mem sub have "wn \<in> set (map Build ns)" by blast
    then obtain n where n: "n \<in> set ns" and wn: "wn = Build n" by auto
    with raw have rw: "Raw wn = n" by simp
    have "Select Raw pick (Apply Build d ns) ctx opts =
            Ok (n, Some dn, map_option (\<lambda>p. p\<lparr>PeerNode := Some n\<rparr>) ctx,
                (Apply Build d ns)\<lparr>Balancer := b'\<rparr>)"
      using ne pk rw by (simp add: Select_candidates) (simp add: Apply_def)
    with n show "\<exists>n dn ctx' d'. Select Raw pick (Apply Build d ns) ctx opts = Ok (n, Some dn, ctx', d')
                 \<and> n \<in> set ns \<and> Address n \<in> Address ` set ns"
      by blast
  qed
  have e6: "cs \<noteq> [] \<longrightarrow>
              (\<exists>wn dn p'. random_Pick PickN r p cs = Ok (wn, Some dn, p') \<and> wn \<in> set cs)
              \<and> (\<exists>wn dn p'. wrr_Pick A W PickN cw cs = Ok (wn, Some dn, p') \<and> wn \<in> set cs)
              \<and> (\<exists>wn dn p'. p2c_Pick Wf E PickN ra rb s cs = Ok (wn, Some dn, p') \<and> wn \<in> set cs)"
    using random_Pick_member [of cs PickN r p] wrr_Pick_member [of cs A W PickN cw]
      p2c_Pick_member [of cs Wf E PickN ra rb s]
    by blast
  from e1 e2 e3 e4 e5 e6 show ?thesis by blast
qed

lemma node_8080_simps:
  "addr node_8080 = ''127.0.0.1:8080''" "version node_8080 = ''v2.0.0''" "weight node_8080 = Some 10"
  by (simp_all add: node_8080_def NewNode_def test_instance_def ParseInt_def is_digit_def
      less_eq_char_def digits_value_def digit_val_def)

lemma node_9090_simps:
  "addr node_9090 = ''127.0.0.1:9090''" "version node_9090 = ''v2.0.0''" "weight node_9090 = Some 20"
  by (simp_all add: node_9090_def NewNode_def test_instance_def ParseInt_def is_digit_def
      less_eq_char_def digits_value_def digit_val_def)

lemma filter_Version_subset: "set (filter_Version Raw v xs) \<subseteq> set xs"
  by (simp add: filter_Version_def)

lemma select_filters_With: "select_filters [WithNodeFilter fs] = fs"
  by (simp add: select_filters_def WithNodeFilter_def)

theorem C1_select_no_available_witness:
  "wrr_Select wrr_New ''v2.0.0'' = Err ErrNoAvailable
   \<and> wrr_Select (Apply direct_Build wrr_New []) ''v2.0.0'' = Err ErrNoAvailable
   \<and> wrr_Select (Apply direct_Build wrr_New [node_8080, node_9090]) ''v9'' = Err ErrNoAvailable
   \<and> (\<exists>n dn ctx' d'.
         wrr_Select (Apply direct_Build wrr_New [node_8080, node_9090]) ''v2.0.0'' = Ok (n, Some dn, ctx', d')
         \<and> n \<in> set [node_8080, node_9090])"
proof -
  let ?pick = "wrr_Pick direct_Address direct_Weight direct_Pick"
  have bal: "\<forall>b cs. cs \<noteq> [] \<longrightarrow> (\<exists>wn dn b'. ?pick b cs = Ok (wn, Some dn, b') \<and> wn \<in> set cs)"
    using wrr_Pick_member by blast
  have raw: "\<forall>n. direct_Raw (direct_Build n) = n"
    by (simp add: direct_Raw_def direct_Build_def)
  have filt: "\<forall>f \<in> set (select_filters [WithNodeFilter [filter_Version direct_Raw v]]).
               \<forall>xs. set (f xs) \<subseteq> set xs" for v
    by (simp add: select_filters_With filter_Version_subset)
  have none: "apply_filters (select_filters [WithNodeFilter [filter_Version direct_Raw ''v9'']])
                (map direct_Build [node_8080, node_9090]) = []"
    by (simp add: select_filters_With apply_filters_def filter_Version_def direct_Raw_def
        direct_Build_def node_8080_simps node_9090_simps)
  have some: "apply_filters (select_filters [WithNodeFilter [filter_Version direct_Raw ''v2.0.0'']])
                (map direct_Build [node_8080, node_9090]) \<noteq> []"
    by (simp add: select_filters_With apply_filters_def filter_Version_def direct_Raw_def
        direct_Build_def node_8080_simps node_9090_simps)
  from C1_select_no_available [where opts = "[WithNodeFilter [filter_Version direct_Raw ''v9'']]"
      and pick = ?pick and Raw = direct_Raw and Build = direct_Build and bs = wrr_Build
      and ctx = None and d = wrr_New and ns = "[node_8080, node_9090]", OF filt bal raw] none
  have a: "wrr_Select (Apply direct_Build wrr_New [node_8080, node_9090]) ''v9'' = Err ErrNoAvailable"
    unfolding wrr_Select_def by blast
  from C1_select_no_available [where opts = "[WithNodeFilter [filter_Version direct_Raw ''v2.0.0'']]"
      and pick = ?pick and Raw = direct_Raw and Build = direct_Build and bs = wrr_Build
      and ctx = None and d = wrr_New and ns = "[node_8080, node_9090]", OF filt bal raw] some
  show ?thesis
    using a unfolding wrr_Select_def wrr_New_def by blast
qed

section \<open>Weighted round robin\<close>


lemma cw_get_upd: "cw_get (cw(a \<mapsto> v)) b = (if b = a then v else cw_get cw b)"
  by (simp add: cw_get_def)

lemma f64_small: "\<bar>x\<bar> < 9007199254740992 \<Longrightarrow> f64 x = x"
  by (simp add: f64_def f64_scale.simps [of "nat \<bar>x\<bar>"] round_even_def nat_less_iff)

lemma f64_rounds:
  "f64 9007199254740992 = 9007199254740992"
  "f64 9007199254740993 = 9007199254740992"
  "f64 9007199254740994 = 9007199254740994"
  "f64 9007199254740995 = 9007199254740996"
  "f64 (- 9007199254740993) = - 9007199254740992"
  by (simp_all add: f64_def f64_scale.simps [of 9007199254740992]
      f64_scale.simps [of 9007199254740993] f64_scale.simps [of 9007199254740994]
      f64_scale.simps [of 9007199254740995] f64_scale.simps [of 4503599627370496]
      f64_scale.simps [of 4503599627370497] round_even_def)

lemma wrr_abs_total_nonneg: "0 \<le> wrr_abs_total W ns"
  by (induction ns) (simp_all add: wrr_abs_total_def)

lemma wrr_abs_total_Cons: "wrr_abs_total W (n # ns) = \<bar>W n\<bar> + wrr_abs_total W ns"
  by (simp add: wrr_abs_total_def)

lemma wrr_fits_Cons:
  assumes "wrr_fits A W cw t (n # ns)"
  shows "f64 (t + W n) = t + W n"
    and "f64 (cw_get cw (A n) + W n) = cw_get cw (A n) + W n"
    and "wrr_fits A W (cw(A n \<mapsto> cw_get cw (A n) + W n)) (t + W n) ns"
proof -
  have p: "0 \<le> wrr_abs_total W ns" by (rule wrr_abs_total_nonneg)
  from assms have t: "\<bar>t\<bar> + (\<bar>W n\<bar> + wrr_abs_total W ns) < 9007199254740992"
    and c: "\<bar>cw_get cw (A n)\<bar> + (\<bar>W n\<bar> + wrr_abs_total W ns) < 9007199254740992"
    and r: "\<forall>m \<in> set ns. \<bar>cw_get cw (A m)\<bar> + (\<bar>W n\<bar> + wrr_abs_total W ns) < 9007199254740992"
    by (simp_all add: wrr_fits_def wrr_abs_total_Cons list_all_iff)
  from t p show "f64 (t + W n) = t + W n"
    by (intro f64_small) linarith
  from c p show "f64 (cw_get cw (A n) + W n) = cw_get cw (A n) + W n"
    by (intro f64_small) linarith
  have "\<bar>t + W n\<bar> + wrr_abs_total W ns < 9007199254740992"
    using t by linarith
  moreover have "\<bar>cw_get (cw(A n \<mapsto> cw_get cw (A n) + W n)) (A m)\<bar> + wrr_abs_total W ns
                   < 9007199254740992" if "m \<in> set ns" for m
  proof (cases "A m = A n")
    case True
    then show ?thesis using c by (simp add: cw_get_upd)
  next
    case False
    from r that have "\<bar>cw_get cw (A m)\<bar> + (\<bar>W n\<bar> + wrr_abs_total W ns) < 9007199254740992"
      by blast
    with False show ?thesis by (simp add: cw_get_upd)
  qed
  ultimately show "wrr_fits A W (cw(A n \<mapsto> cw_get cw (A n) + W n)) (t + W n) ns"
    by (simp add: wrr_fits_def list_all_iff)
qed

lemma wrr_loop_Cons:
  assumes "wrr_fits A W cw t (n # ns)"
  shows "wrr_loop A W (n # ns) (t, cw, s, sw) =
           (if s = None \<or> sw < cw_get cw (A n) + W n
            then wrr_loop A W ns (t + W n, cw(A n \<mapsto> cw_get cw (A n) + W n), Some n,
                   cw_get cw (A n) + W n)
            else wrr_loop A W ns (t + W n, cw(A n \<mapsto> cw_get cw (A n) + W n), s, sw))"
  by (simp add: Let_def wrr_fits_Cons(1,2) [OF assms])

lemma wrr_loop_total:
  "wrr_loop A W ns (t, cw, s, sw) = (t', cw', s', sw') \<Longrightarrow> wrr_fits A W cw t ns \<Longrightarrow>
   t' = t + wrr_total W ns"
proof (induction ns arbitrary: t cw s sw)
  case Nil
  then show ?case by (simp add: wrr_total_def)
next
  case (Cons n ns)
  note fits = wrr_fits_Cons(3) [OF Cons.prems(2)]
  from Cons.prems(1) have "t' = (t + W n) + wrr_total W ns"
    unfolding wrr_loop_Cons [OF Cons.prems(2)]
    by (auto split: if_splits dest: Cons.IH [OF _ fits])
  then show ?case by (simp add: wrr_total_def)
qed

lemma wrr_loop_acc:
  "wrr_loop A W ns (t, cw, s, sw) = (t', cw', s', sw') \<Longrightarrow> wrr_fits A W cw t ns \<Longrightarrow>
   cw_get cw' a = wrr_added A W cw ns a"
proof (induction ns arbitrary: t cw s sw)
  case Nil
  then show ?case by (simp add: wrr_added_def)
next
  case (Cons n ns)
  let ?cw = "cw(A n \<mapsto> cw_get cw (A n) + W n)"
  note fits = wrr_fits_Cons(3) [OF Cons.prems(2)]
  from Cons.prems(1) have "cw_get cw' a = wrr_added A W ?cw ns a"
    unfolding wrr_loop_Cons [OF Cons.prems(2)]
    by (auto split: if_splits dest: Cons.IH [OF _ fits])
  then show ?case by (simp add: wrr_added_def cw_get_upd)
qed

lemma wrr_loop_inv:
  assumes "wrr_loop A W ns (t, cw, s, sw) = (t', cw', s', sw')"
    and "wrr_inv A cw s sw P"
    and "(\<forall>n \<in> set ns. 0 \<le> W n) \<or> (distinct (map A ns) \<and> A ` set ns \<inter> P = {})"
    and "wrr_fits A W cw t ns"
  shows "wrr_inv A cw' s' sw' (P \<union> A ` set ns)"
  using assms
proof (induction ns arbitrary: t cw s sw P)
  case Nil
  then show ?case by simp
next
  case (Cons n ns)
  let ?cwt = "cw_get cw (A n) + W n"
  let ?cw = "cw(A n \<mapsto> ?cwt)"
  note fits = wrr_fits_Cons(3) [OF Cons.prems(4)]
  note unroll = wrr_loop_Cons [OF Cons.prems(4)]
  have cond: "(\<forall>m \<in> set ns. 0 \<le> W m) \<or> (distinct (map A ns) \<and> A ` set ns \<inter> (insert (A n) P) = {})"
    using Cons.prems(3) by auto
  have here: "0 \<le> W n \<or> A n \<notin> P"
    using Cons.prems(3) by auto
  show ?case
  proof (cases "s = None \<or> sw < ?cwt")
    case True
    with Cons.prems(1)
    have l: "wrr_loop A W ns (t + W n, ?cw, Some n, ?cwt) = (t', cw', s', sw')"
      unfolding unroll by simp
    have "wrr_inv A ?cw (Some n) ?cwt (insert (A n) P)"
      using True Cons.prems(2)
      by (auto simp: wrr_inv_def cw_get_upd split: option.splits)
    from Cons.IH [OF l this cond fits] show ?thesis by simp
  next
    case False
    then obtain x where x: "s = Some x" and le: "?cwt \<le> sw" by auto
    with Cons.prems(1) False
    have l: "wrr_loop A W ns (t + W n, ?cw, s, sw) = (t', cw', s', sw')"
      unfolding unroll by simp
    have "wrr_inv A ?cw s sw (insert (A n) P)"
      using x le here Cons.prems(2)
      by (auto simp: wrr_inv_def cw_get_upd)
    from Cons.IH [OF l this cond fits] show ?thesis by simp
  qed
qed

lemma wrr_total_bound: "\<bar>wrr_total W ns\<bar> \<le> wrr_abs_total W ns"
  by (induction ns) (simp_all add: wrr_total_def wrr_abs_total_def)

lemma wrr_added_bound: "\<bar>wrr_added A W cw ns a\<bar> \<le> \<bar>cw_get cw a\<bar> + wrr_abs_total W ns"
proof -
  have "\<bar>sum_list (map W (filter (\<lambda>n. A n = a) ns))\<bar> \<le> wrr_abs_total W ns"
    by (induction ns) (auto simp: wrr_abs_total_def)
  then show ?thesis by (simp add: wrr_added_def)
qed

lemma wrr_in_range_fits:
  assumes "nodes \<noteq> []" and "wrr_in_range A W cw nodes"
  shows "wrr_fits A W cw 0 nodes"
proof -
  have p: "0 \<le> wrr_abs_total W nodes" by (rule wrr_abs_total_nonneg)
  from assms(2) have r: "\<forall>n \<in> set nodes. \<bar>cw_get cw (A n)\<bar> + 2 * wrr_abs_total W nodes < 9007199254740992"
    by (simp add: wrr_in_range_def list_all_iff)
  from assms(1) obtain n where "n \<in> set nodes" by (cases nodes) auto
  with r have "\<bar>cw_get cw (A n)\<bar> + 2 * wrr_abs_total W nodes < 9007199254740992" by blast
  with p have a: "wrr_abs_total W nodes < 9007199254740992" by linarith
  have "\<bar>cw_get cw (A m)\<bar> + wrr_abs_total W nodes < 9007199254740992" if "m \<in> set nodes" for m
  proof -
    from r that have "\<bar>cw_get cw (A m)\<bar> + 2 * wrr_abs_total W nodes < 9007199254740992" by blast
    with p show ?thesis by linarith
  qed
  with a show ?thesis by (simp add: wrr_fits_def list_all_iff)
qed

lemma wrr_Pick_spec:
  assumes ne: "nodes \<noteq> []"
    and ok: "distinct (map A nodes) \<or> (\<forall>n \<in> set nodes. 0 \<le> W n)"
    and rng: "wrr_in_range A W cw nodes"
  shows "\<exists>sel cw'. wrr_Pick A W PickN cw nodes = Ok (sel, Some (PickN sel), cw')
           \<and> wrr_is_max A W cw nodes sel
           \<and> (\<forall>a. cw_get cw' a = wrr_after A W cw nodes sel a)"
proof -
  note fits = wrr_in_range_fits [OF ne rng]
  obtain t' cw1 s' sw' where l: "wrr_loop A W nodes (0, cw, None, 0) = (t', cw1, s', sw')"
    by (cases "wrr_loop A W nodes (0, cw, None, 0)") auto
  from wrr_loop_selected [OF l] ne obtain sel where s': "s' = Some sel" and mem: "sel \<in> set nodes"
    by auto
  have t': "t' = wrr_total W nodes"
    using wrr_loop_total [OF l fits] by simp
  have acc: "\<And>a. cw_get cw1 a = wrr_added A W cw nodes a"
    by (rule wrr_loop_acc [OF l fits])
  have "wrr_inv A cw None 0 {}" by (simp add: wrr_inv_def)
  from wrr_loop_inv [OF l this _ fits] ok have "wrr_inv A cw1 s' sw' ({} \<union> A ` set nodes)"
    by auto
  with s' have sw': "sw' = cw_get cw1 (A sel)" and mx: "\<forall>a \<in> A ` set nodes. cw_get cw1 a \<le> sw'"
    by (auto simp: wrr_inv_def)
  have "\<bar>cw_get cw (A sel)\<bar> + 2 * wrr_abs_total W nodes < 9007199254740992"
    using rng mem by (simp add: wrr_in_range_def list_all_iff)
  with wrr_added_bound [of A W cw nodes "A sel"] wrr_total_bound [of W nodes]
  have "\<bar>sw' - t'\<bar> < 9007199254740992"
    unfolding sw' t' acc by linarith
  then have ex: "f64 (sw' - t') = sw' - t'"
    by (rule f64_small)
  have pk: "wrr_Pick A W PickN cw nodes = Ok (sel, Some (PickN sel), cw1(A sel \<mapsto> sw' - t'))"
    using l s' ne ex by (simp add: wrr_Pick_def)
  have "wrr_is_max A W cw nodes sel"
    using mem mx sw' acc by (simp add: wrr_is_max_def list_all_iff)
  moreover have "\<forall>a. cw_get (cw1(A sel \<mapsto> sw' - t')) a = wrr_after A W cw nodes sel a"
    using sw' t' acc by (simp add: cw_get_upd wrr_after_def)
  ultimately show ?thesis using pk by blast
qed

lemma direct_8080:
  "direct_Address (direct_Build node_8080) = ''127.0.0.1:8080''"
  "direct_Weight (direct_Build node_8080) = 10"
  "direct_Raw (direct_Build node_8080) = node_8080"
  by (simp_all add: direct_Address_def direct_Weight_def direct_Raw_def direct_Build_def
      Address_def InitialWeight_def node_8080_simps f64_small)

lemma direct_9090:
  "direct_Address (direct_Build node_9090) = ''127.0.0.1:9090''"
  "direct_Weight (direct_Build node_9090) = 20"
  "direct_Raw (direct_Build node_9090) = node_9090"
  by (simp_all add: direct_Address_def direct_Weight_def direct_Raw_def direct_Build_def
      Address_def InitialWeight_def node_9090_simps f64_small)

lemma wrr_Select_step:
  assumes "wrr_state d x y" and "\<bar>x\<bar> \<le> 10" and "\<bar>y\<bar> \<le> 10"
  shows "\<exists>d'. wrr_Select d ''v2.0.0'' =
                 Ok (if x + 10 < y + 20 then node_9090 else node_8080, Some NoopDone, None, d')
              \<and> wrr_state d' (if x + 10 < y + 20 then x + 10 else x + 10 - 30)
                             (if x + 10 < y + 20 then y + 20 - 30 else y + 20)"
proof -
  from assms(1) have snap: "snapshot d = Some [direct_Build node_8080, direct_Build node_9090]"
    and x: "cw_get (Balancer d) ''127.0.0.1:8080'' = x"
    and y: "cw_get (Balancer d) ''127.0.0.1:9090'' = y"
    by (simp_all add: wrr_state_def)
  have cs: "apply_filters (select_filters [WithNodeFilter [filter_Version direct_Raw ''v2.0.0'']])
              [direct_Build node_8080, direct_Build node_9090]
            = [direct_Build node_8080, direct_Build node_9090]"
    by (simp add: select_filters_With apply_filters_def filter_Version_def direct_8080 direct_9090
        node_8080_simps node_9090_simps)
  have pk: "wrr_Pick direct_Address direct_Weight direct_Pick (Balancer d)
              [direct_Build node_8080, direct_Build node_9090] =
            Ok (if x + 10 < y + 20 then direct_Build node_9090 else direct_Build node_8080,
                Some NoopDone,
                if x + 10 < y + 20
                then (Balancer d)(''127.0.0.1:8080'' \<mapsto> x + 10, ''127.0.0.1:9090'' \<mapsto> y + 20 - 30)
                else (Balancer d)(''127.0.0.1:8080'' \<mapsto> x + 10, ''127.0.0.1:9090'' \<mapsto> y + 20,
                                  ''127.0.0.1:8080'' \<mapsto> x + 10 - 30))"
    using x y assms(2,3)
    by (simp add: wrr_Pick_def Let_def direct_8080 direct_9090 direct_Pick_def cw_get_upd f64_small)
  show ?thesis
    by (simp add: wrr_Select_def Select_candidates snap cs pk wrr_state_def cw_get_upd direct_8080
        direct_9090)
qed


lemma wrr_three_selects:
  assumes "wrr_state d 0 0"
  shows "\<exists>d3. wrr_state d3 0 0 \<and>
           (\<forall>k. wrr_select_n (Suc (Suc (Suc k))) d ''v2.0.0'' =
                  (case wrr_select_n k d3 ''v2.0.0'' of
                     Err e \<Rightarrow> Err e
                   | Panic \<Rightarrow> Panic
                   | Ok as \<Rightarrow> Ok (''127.0.0.1:9090'' # ''127.0.0.1:8080'' # ''127.0.0.1:9090'' # as)))"
proof -
  from wrr_Select_step [OF assms] obtain d1 where
    s1: "wrr_Select d ''v2.0.0'' = Ok (node_9090, Some NoopDone, None, d1)" and st1: "wrr_state d1 10 (- 10)"
    by auto
  from wrr_Select_step [OF st1] obtain d2 where
    s2: "wrr_Select d1 ''v2.0.0'' = Ok (node_8080, Some NoopDone, None, d2)" and st2: "wrr_state d2 (- 10) 10"
    by auto
  from wrr_Select_step [OF st2] obtain d3 where
    s3: "wrr_Select d2 ''v2.0.0'' = Ok (node_9090, Some NoopDone, None, d3)" and st3: "wrr_state d3 0 0"
    by auto
  have "wrr_select_n (Suc (Suc (Suc k))) d ''v2.0.0'' =
          (case wrr_select_n k d3 ''v2.0.0'' of
             Err e \<Rightarrow> Err e
           | Panic \<Rightarrow> Panic
           | Ok as \<Rightarrow> Ok (''127.0.0.1:9090'' # ''127.0.0.1:8080'' # ''127.0.0.1:9090'' # as))" for k
    by (simp add: s1 s2 s3 Address_def node_8080_simps node_9090_simps split: res.splits)
  with st3 show ?thesis by blast
qed

lemma wrr_periods:
  "wrr_state d 0 0 \<Longrightarrow>
   \<exists>as. wrr_select_n (3 * m) d ''v2.0.0'' = Ok as
        \<and> count_list as ''127.0.0.1:8080'' = m
        \<and> count_list as ''127.0.0.1:9090'' = 2 * m
        \<and> length as = 3 * m"
proof (induction m arbitrary: d)
  case 0
  then show ?case by simp
next
  case (Suc m)
  from wrr_three_selects [OF Suc.prems] obtain d3 where st3: "wrr_state d3 0 0"
    and run: "\<And>k. wrr_select_n (Suc (Suc (Suc k))) d ''v2.0.0'' =
                  (case wrr_select_n k d3 ''v2.0.0'' of
                     Err e \<Rightarrow> Err e
                   | Panic \<Rightarrow> Panic
                   | Ok as \<Rightarrow> Ok (''127.0.0.1:9090'' # ''127.0.0.1:8080'' # ''127.0.0.1:9090'' # as))"
    by blast
  from Suc.IH [OF st3] obtain as where as: "wrr_select_n (3 * m) d3 ''v2.0.0'' = Ok as"
    "count_list as ''127.0.0.1:8080'' = m" "count_list as ''127.0.0.1:9090'' = 2 * m"
    "length as = 3 * m"
    by blast
  have three: "3 * Suc m = Suc (Suc (Suc (3 * m)))" by simp
  have "wrr_select_n (Suc (Suc (Suc (3 * m)))) d ''v2.0.0'' =
               Ok (''127.0.0.1:9090'' # ''127.0.0.1:8080'' # ''127.0.0.1:9090'' # as)"
    by (simp only: run [of "3 * m"] as(1) res.case)
  then have "wrr_select_n (3 * Suc m) d ''v2.0.0'' =
               Ok (''127.0.0.1:9090'' # ''127.0.0.1:8080'' # ''127.0.0.1:9090'' # as)"
    by (simp only: three)
  with as show ?case by simp
qed

lemma wrr_state_initial: "wrr_state (Apply direct_Build wrr_New [node_8080, node_9090]) 0 0"
  by (simp add: wrr_state_def Apply_def wrr_New_def DefaultBuilder_Build_def wrr_Build_def cw_get_def)

lemma wrr_300_selects:
  "\<exists>as. wrr_select_n 300 (Apply direct_Build wrr_New [node_8080, node_9090]) ''v2.0.0'' = Ok as
        \<and> count_list as ''127.0.0.1:8080'' = 100
        \<and> count_list as ''127.0.0.1:9090'' = 200
        \<and> length as = 300"
  using wrr_periods [OF wrr_state_initial, of 100] by simp

lemma dup_simps:
  "direct_Address dup_pos = ''10.0.0.1:80''" "direct_Weight dup_pos = 10"
  "direct_Address dup_neg = ''10.0.0.1:80''" "direct_Weight dup_neg = - 5"
  by (simp_all add: dup_pos_def dup_neg_def direct_Address_def direct_Weight_def direct_Build_def
      Address_def InitialWeight_def NewNode_def test_instance_def ParseInt_def is_digit_def
      less_eq_char_def digits_value_def digit_val_def f64_small)

text \<open>
  Beyond the exact range the float64 sums round: with weights \<open>2^53\<close> and 1 at two
  addresses and a fresh balancer, the total \<open>2^53 + 1\<close> rounds to \<open>2^53\<close> and the selected
  accumulator is left at 0, where exact arithmetic gives -1. A metadata weight of
  \<open>2^53 + 1\<close> is itself rounded by the conversion to float64.
\<close>

lemma big_simps:
  "direct_Address big_node = ''10.0.0.1:80''" "direct_Weight big_node = 9007199254740992"
  "direct_Address one_node = ''10.0.0.2:80''" "direct_Weight one_node = 1"
  "direct_Weight (direct_Build (NewNode ''http'' ''10.0.0.1:80''
     (Some (test_instance ''i1'' ''9007199254740993'')))) = 9007199254740992"
  by (simp_all add: big_node_def one_node_def direct_Address_def direct_Weight_def direct_Build_def
      Address_def InitialWeight_def NewNode_def test_instance_def ParseInt_def is_digit_def
      less_eq_char_def digits_value_def digit_val_def f64_small f64_rounds)

lemma wrr_Pick_rounds:
  "wrr_Pick direct_Address direct_Weight direct_Pick Map.empty [big_node, one_node] =
     Ok (big_node, Some NoopDone,
         [''10.0.0.1:80'' \<mapsto> 9007199254740992, ''10.0.0.2:80'' \<mapsto> 1, ''10.0.0.1:80'' \<mapsto> 0])"
  "wrr_after direct_Address direct_Weight Map.empty [big_node, one_node] big_node ''10.0.0.1:80'' = - 1"
  "\<not> wrr_in_range direct_Address direct_Weight Map.empty [big_node, one_node]"
  by (simp_all add: wrr_Pick_def Let_def big_simps cw_get_def direct_Pick_def wrr_added_def
      wrr_total_def wrr_after_def wrr_in_range_def wrr_abs_total_def f64_small f64_rounds)

text \<open>
  C4, as stated, fails when two candidates share an address and one has a negative
  weight: with accumulators at 0 and candidates of weights 10 and -5 at one address, the
  first is selected with \<open>selectWeight = 10\<close>, the accumulator of the address is 5 after
  the additions, the total is 5, and \<^verbatim>\<open>Pick\<close> stores \<open>10 - 5 = 5\<close>, not \<open>5 - 5 = 0\<close>. All
  the values are small: no float64 operation rounds here.
\<close>

theorem C4_wrr_pick_counterexample:
  "wrr_Pick direct_Address direct_Weight direct_Pick Map.empty [dup_pos, dup_neg] =
     Ok (dup_pos, Some NoopDone, [''10.0.0.1:80'' \<mapsto> 5])
   \<and> wrr_added direct_Address direct_Weight Map.empty [dup_pos, dup_neg] ''10.0.0.1:80'' = 5
   \<and> wrr_total direct_Weight [dup_pos, dup_neg] = 5
   \<and> wrr_after direct_Address direct_Weight Map.empty [dup_pos, dup_neg] dup_pos ''10.0.0.1:80'' = 0
   \<and> cw_get [''10.0.0.1:80'' \<mapsto> 5] ''10.0.0.1:80'' \<noteq>
       wrr_after direct_Address direct_Weight Map.empty [dup_pos, dup_neg] dup_pos ''10.0.0.1:80''
   \<and> wrr_in_range direct_Address direct_Weight Map.empty [dup_pos, dup_neg]"
  by (simp add: wrr_Pick_def Let_def dup_simps cw_get_def direct_Pick_def wrr_added_def
      wrr_total_def wrr_after_def wrr_in_range_def wrr_abs_total_def f64_small)

text \<open>
  C4, amended. When the candidates' addresses are pairwise distinct, or no candidate has
  a negative weight, and the values are in the range where float64 is exact (for every
  candidate, the magnitude of its accumulator plus twice the sum of the magnitudes of all
  the candidates' weights is below \<open>2^53\<close>), \<^verbatim>\<open>Pick\<close> on a non-empty list returns a
  candidate whose address has the largest accumulator after every candidate's weight was
  added to the accumulator of its address, and leaves every accumulator at that sum, but
  the selected address's, which is the sum less the total weight. From the empty
  balancer, 300 calls of \<^verbatim>\<open>Select\<close> with the version filter on the nodes of weights 10 and
  20 select the first 100 times and the second 200 times.
\<close>

theorem C4_wrr_pick:
  assumes "nodes \<noteq> []"
    and "distinct (map A nodes) \<or> (\<forall>n \<in> set nodes. 0 \<le> W n)"
    and "wrr_in_range A W cw nodes"
  shows "(\<exists>sel cw'. wrr_Pick A W PickN cw nodes = Ok (sel, Some (PickN sel), cw')
            \<and> wrr_is_max A W cw nodes sel
            \<and> (\<forall>a. cw_get cw' a = wrr_after A W cw nodes sel a))
         \<and> (\<exists>as. wrr_select_n 300 (Apply direct_Build wrr_New [node_8080, node_9090]) ''v2.0.0'' = Ok as
               \<and> count_list as ''127.0.0.1:8080'' = 100
               \<and> count_list as ''127.0.0.1:9090'' = 200
               \<and> length as = 300
               \<and> 80 \<le> count_list as ''127.0.0.1:8080'' \<and> count_list as ''127.0.0.1:8080'' \<le> 120
               \<and> 180 \<le> count_list as ''127.0.0.1:9090'' \<and> count_list as ''127.0.0.1:9090'' \<le> 220)"
proof -
  have step: "\<exists>sel cw'. wrr_Pick A W PickN cw nodes = Ok (sel, Some (PickN sel), cw')
            \<and> wrr_is_max A W cw nodes sel
            \<and> (\<forall>a. cw_get cw' a = wrr_after A W cw nodes sel a)"
    using assms by (rule wrr_Pick_spec)
  from wrr_300_selects obtain as where
    "wrr_select_n 300 (Apply direct_Build wrr_New [node_8080, node_9090]) ''v2.0.0'' = Ok as"
    "count_list as ''127.0.0.1:8080'' = 100" "count_list as ''127.0.0.1:9090'' = 200"
    "length as = 300"
    by blast
  then have "\<exists>as. wrr_select_n 300 (Apply direct_Build wrr_New [node_8080, node_9090]) ''v2.0.0'' = Ok as
               \<and> count_list as ''127.0.0.1:8080'' = 100
               \<and> count_list as ''127.0.0.1:9090'' = 200
               \<and> length as = 300
               \<and> 80 \<le> count_list as ''127.0.0.1:8080'' \<and> count_list as ''127.0.0.1:8080'' \<le> 120
               \<and> 180 \<le> count_list as ''127.0.0.1:9090'' \<and> count_list as ''127.0.0.1:9090'' \<le> 220"
    by (intro exI [of _ as]) simp
  with step show ?thesis by blast
qed

theorem C4_wrr_pick_witness:
  "wrr_Pick direct_Address direct_Weight direct_Pick Map.empty
       [direct_Build node_8080, direct_Build node_9090] =
     Ok (direct_Build node_9090, Some NoopDone, [''127.0.0.1:8080'' \<mapsto> 10, ''127.0.0.1:9090'' \<mapsto> - 10])
   \<and> (\<exists>sel cw'. wrr_Pick direct_Address direct_Weight direct_Pick Map.empty
                    [direct_Build node_8080, direct_Build node_9090] = Ok (sel, Some (direct_Pick sel), cw')
         \<and> wrr_is_max direct_Address direct_Weight Map.empty
              [direct_Build node_8080, direct_Build node_9090] sel
         \<and> cw_get cw' ''127.0.0.1:8080'' =
             wrr_after direct_Address direct_Weight Map.empty
               [direct_Build node_8080, direct_Build node_9090] sel ''127.0.0.1:8080'')"
proof -
  have ne: "[direct_Build node_8080, direct_Build node_9090] \<noteq> []" by simp
  have d: "distinct (map direct_Address [direct_Build node_8080, direct_Build node_9090])
           \<or> (\<forall>n \<in> set [direct_Build node_8080, direct_Build node_9090]. 0 \<le> direct_Weight n)"
    by (simp add: direct_8080 direct_9090)
  have r: "wrr_in_range direct_Address direct_Weight Map.empty
             [direct_Build node_8080, direct_Build node_9090]"
    by (simp add: wrr_in_range_def wrr_abs_total_def direct_8080 direct_9090 cw_get_def)
  have ev: "wrr_Pick direct_Address direct_Weight direct_Pick Map.empty
       [direct_Build node_8080, direct_Build node_9090] =
     Ok (direct_Build node_9090, Some NoopDone, [''127.0.0.1:8080'' \<mapsto> 10, ''127.0.0.1:9090'' \<mapsto> - 10])"
    by (simp add: wrr_Pick_def Let_def direct_8080 direct_9090 cw_get_def direct_Pick_def f64_small)
  from C4_wrr_pick [OF ne d r, of direct_Pick] ev show ?thesis
    by blast
qed

section \<open>Resolver updates\<close>


lemma http_nodes_rebalancer [simp]:
  "http_nodes up Subset (r\<lparr>rebalancer := x\<rparr>) services = http_nodes up Subset r services"
  by (simp add: http_nodes_def Let_def)

lemma grpc_addrs_cc [simp]:
  "grpc_addrs up Subset (r\<lparr>cc := x\<rparr>) ins = grpc_addrs up Subset r ins"
  by (simp add: grpc_addrs_def Let_def)

lemma http_update_empty:
  "http_nodes up Subset r services = [] \<Longrightarrow> http_update up Subset ApplyF r services = (r, False)"
  by (simp add: http_update_def)

lemma http_update_nonempty:
  "http_nodes up Subset r services \<noteq> [] \<Longrightarrow>
   http_update up Subset ApplyF r services =
     (r\<lparr>rebalancer := ApplyF (rebalancer r) (http_nodes up Subset r services)\<rparr>, True)"
  by (simp add: http_update_def Let_def)

lemma grpc_update_empty:
  "grpc_addrs up Subset r ins = [] \<Longrightarrow> grpc_update up Subset UpdateState r ins = r"
  by (simp add: grpc_update_def)

lemma grpc_update_nonempty:
  "grpc_addrs up Subset r ins \<noteq> [] \<Longrightarrow>
   grpc_update up Subset UpdateState r ins = r\<lparr>cc := UpdateState (cc r) (grpc_addrs up Subset r ins)\<rparr>"
  by (simp add: grpc_update_def Let_def)

lemma http_update_keeps:
  assumes "P (rebalancer r)" and "\<And>x nodes. P x \<Longrightarrow> nodes \<noteq> [] \<Longrightarrow> P (ApplyF x nodes)"
  shows "P (rebalancer (fst (http_update up Subset ApplyF r services)))"
  using assms by (cases "http_nodes up Subset r services = []")
    (simp_all add: http_update_empty http_update_nonempty)

lemma http_watch_keeps:
  assumes "P (rebalancer r)" and "\<And>x nodes. P x \<Longrightarrow> nodes \<noteq> [] \<Longrightarrow> P (ApplyF x nodes)"
  shows "\<forall>d \<in> set (http_watch up Subset ApplyF r results). P d"
  using assms(1)
proof (induction results arbitrary: r)
  case Nil
  then show ?case by simp
next
  case (Cons res results)
  show ?case
  proof (cases res)
    case Canceled
    then show ?thesis by simp
  next
    case Failed
    with Cons show ?thesis by simp
  next
    case (Instances services)
    have "P (rebalancer (fst (http_update up Subset ApplyF r services)))"
      using Cons.prems assms(2) by (rule http_update_keeps)
    with Cons.IH Instances show ?thesis by (simp add: Let_def)
  qed
qed

lemma grpc_update_keeps:
  assumes "P (cc r)" and "\<And>x addrs. P x \<Longrightarrow> addrs \<noteq> [] \<Longrightarrow> P (UpdateState x addrs)"
  shows "P (cc (grpc_update up Subset UpdateState r ins))"
  using assms by (cases "grpc_addrs up Subset r ins = []")
    (simp_all add: grpc_update_empty grpc_update_nonempty)

lemma grpc_watch_keeps:
  assumes "P (cc r)" and "\<And>x addrs. P x \<Longrightarrow> addrs \<noteq> [] \<Longrightarrow> P (UpdateState x addrs)"
  shows "\<forall>c \<in> set (grpc_watch up Subset UpdateState r results). P c"
  using assms(1)
proof (induction results arbitrary: r)
  case Nil
  then show ?case by simp
next
  case (Cons res results)
  show ?case
  proof (cases res)
    case Canceled
    then show ?thesis by simp
  next
    case Failed
    with Cons show ?thesis by simp
  next
    case (Instances ins)
    have "P (cc (grpc_update up Subset UpdateState r ins))"
      using Cons.prems assms(2) by (rule grpc_update_keeps)
    with Cons.IH Instances show ?thesis by (simp add: Let_def)
  qed
qed

lemma http_three_updates:
  assumes "http_nodes up Subset r s1 \<noteq> []" and "http_nodes up Subset r s2 = []"
    and "http_nodes up Subset r s3 \<noteq> []"
  shows "map snapshot (http_watch up Subset (Apply Build) r [Instances s1, Instances s2, Instances s3]) =
           [Some (map Build (http_nodes up Subset r s1)),
            Some (map Build (http_nodes up Subset r s1)),
            Some (map Build (http_nodes up Subset r s3))]"
  using assms
  by (simp add: http_update_nonempty http_update_empty Let_def Apply_def)

text \<open>
  C7. An update whose node list is empty is not applied: the HTTP \<^verbatim>\<open>update\<close> returns
  false with the resolver as it was, the gRPC \<^verbatim>\<open>update\<close> returns without calling
  \<^verbatim>\<open>UpdateState\<close>. Over any results of the watcher, no empty list is ever handed to
  \<^verbatim>\<open>Apply\<close> or \<^verbatim>\<open>UpdateState\<close>, and a selector whose snapshot is not the empty list never
  gets the empty list as its snapshot. When the watcher delivers instances with nodes,
  then without, then with nodes again, the snapshots are the first nodes, the first nodes
  again, and the third nodes.
\<close>

theorem C7_last_known_good:
  "(http_nodes up Subset hr services = [] \<longrightarrow>
      http_update up Subset ApplyF hr services = (hr, False))
   \<and> (grpc_addrs up Subset gr services = [] \<longrightarrow>
      grpc_update up Subset UpdateState gr services = gr)
   \<and> (\<forall>log \<in> set (http_watch up Subset record_call (lr\<lparr>rebalancer := []\<rparr>) results). [] \<notin> set log)
   \<and> (\<forall>log \<in> set (grpc_watch up Subset record_call (lg\<lparr>cc := []\<rparr>) results). [] \<notin> set log)
   \<and> (snapshot (rebalancer sr) \<noteq> Some [] \<longrightarrow>
        (\<forall>d \<in> set (http_watch up Subset (Apply Build) sr results). snapshot d \<noteq> Some []))
   \<and> (http_nodes up Subset sr s1 \<noteq> [] \<and> http_nodes up Subset sr s2 = []
        \<and> http_nodes up Subset sr s3 \<noteq> [] \<longrightarrow>
        map snapshot (http_watch up Subset (Apply Build) sr [Instances s1, Instances s2, Instances s3]) =
           [Some (map Build (http_nodes up Subset sr s1)),
            Some (map Build (http_nodes up Subset sr s1)),
            Some (map Build (http_nodes up Subset sr s3))])"
proof -
  have a: "\<forall>log \<in> set (http_watch up Subset record_call (lr\<lparr>rebalancer := []\<rparr>) results). [] \<notin> set log"
    by (rule http_watch_keeps) (simp_all add: record_call_def)
  have b: "\<forall>log \<in> set (grpc_watch up Subset record_call (lg\<lparr>cc := []\<rparr>) results). [] \<notin> set log"
    by (rule grpc_watch_keeps) (simp_all add: record_call_def)
  have c: "snapshot (rebalancer sr) \<noteq> Some [] \<longrightarrow>
        (\<forall>d \<in> set (http_watch up Subset (Apply Build) sr results). snapshot d \<noteq> Some [])"
  proof
    assume "snapshot (rebalancer sr) \<noteq> Some []"
    then show "\<forall>d \<in> set (http_watch up Subset (Apply Build) sr results). snapshot d \<noteq> Some []"
      by (rule http_watch_keeps) (simp add: Apply_def)
  qed
  show ?thesis
    using a b c http_three_updates [of up Subset sr s1 s2 s3 Build]
    by (simp add: http_update_empty grpc_update_empty)
qed

lemma uri_parse_http: "uri_parse (''http://'' @ h @ ''?isSecure=false'') =
    Some \<lparr>url_Scheme = ''http'', url_Host = takeWhile (\<lambda>c. c \<noteq> CHR ''/'' \<and> c \<noteq> CHR ''?'' \<and> c \<noteq> CHR ''#'') (h @ ''?isSecure=false'')\<rparr>"
  by (simp add: uri_parse_def)

lemma uri_parse_grpc: "uri_parse (''grpc://'' @ h @ ''?isSecure=false'') =
    Some \<lparr>url_Scheme = ''grpc'', url_Host = takeWhile (\<lambda>c. c \<noteq> CHR ''/'' \<and> c \<noteq> CHR ''?'' \<and> c \<noteq> CHR ''#'') (h @ ''?isSecure=false'')\<rparr>"
  by (simp add: uri_parse_def)

lemma test_endpoints:
  "ParseEndpoint uri_parse (Endpoints (test_service i ''127.0.0.1:9000'' ''127.0.0.1:8000'')) ''http'' = Some ''127.0.0.1:8000''"
  "ParseEndpoint uri_parse (Endpoints (test_service i ''127.0.0.1:9000'' ''127.0.0.1:8001'')) ''http'' = Some ''127.0.0.1:8001''"
  "ParseEndpoint uri_parse (Endpoints (test_service i ''127.0.0.1:9000'' ''127.0.0.1:8000'')) ''grpc'' = Some ''127.0.0.1:9000''"
  "ParseEndpoint uri_parse (Endpoints (test_service i ''127.0.0.1:9000'' ''127.0.0.1:8001'')) ''grpc'' = Some ''127.0.0.1:9000''"
  "ParseEndpoint uri_parse (Endpoints (grpc_only_service i ''127.0.0.1:9000'')) ''http'' = Some []"
  by (simp_all add: test_service_def grpc_only_service_def uri_parse_def)

lemma NewNode_addr: "addr (NewNode sch a ins) = a"
  by (simp add: NewNode_def Let_def split: option.splits)

lemma test_http_nodes:
  "map addr (http_nodes uri_parse no_subset test_http_resolver
      [test_service ''a'' ''127.0.0.1:9000'' ''127.0.0.1:8000'']) = [''127.0.0.1:8000'']"
  "http_nodes uri_parse no_subset test_http_resolver [grpc_only_service ''c'' ''127.0.0.1:9000''] = []"
  "map addr (http_nodes uri_parse no_subset test_http_resolver
      [test_service ''a'' ''127.0.0.1:9000'' ''127.0.0.1:8000'', grpc_only_service ''c'' ''127.0.0.1:9000'',
       test_service ''b'' ''127.0.0.1:9000'' ''127.0.0.1:8001'']) = [''127.0.0.1:8000'', ''127.0.0.1:8001'']"
  by (simp_all add: http_nodes_def test_http_resolver_def endpoint_Scheme_def test_endpoints
      ept_of_def NewNode_addr no_subset_def)

theorem C7_last_known_good_witness:
  "map (map_option (map direct_Address) \<circ> snapshot)
     (http_watch uri_parse no_subset (Apply direct_Build) test_http_resolver
        [Instances [test_service ''a'' ''127.0.0.1:9000'' ''127.0.0.1:8000''],
         Instances [grpc_only_service ''c'' ''127.0.0.1:9000''],
         Instances [test_service ''a'' ''127.0.0.1:9000'' ''127.0.0.1:8000'',
                    grpc_only_service ''c'' ''127.0.0.1:9000'',
                    test_service ''b'' ''127.0.0.1:9000'' ''127.0.0.1:8001'']]) =
   [Some [''127.0.0.1:8000''], Some [''127.0.0.1:8000''], Some [''127.0.0.1:8000'', ''127.0.0.1:8001'']]"
proof -
  let ?s1 = "[test_service ''a'' ''127.0.0.1:9000'' ''127.0.0.1:8000'']"
  let ?s2 = "[grpc_only_service ''c'' ''127.0.0.1:9000'']"
  let ?s3 = "[test_service ''a'' ''127.0.0.1:9000'' ''127.0.0.1:8000'',
                    grpc_only_service ''c'' ''127.0.0.1:9000'',
                    test_service ''b'' ''127.0.0.1:9000'' ''127.0.0.1:8001'']"
  have n1: "http_nodes uri_parse no_subset test_http_resolver ?s1 \<noteq> []"
    using test_http_nodes(1) by auto
  have n2: "http_nodes uri_parse no_subset test_http_resolver ?s2 = []"
    by (rule test_http_nodes(2))
  have n3: "http_nodes uri_parse no_subset test_http_resolver ?s3 \<noteq> []"
    using test_http_nodes(3) by auto
  have da: "map direct_Address (map direct_Build ns) = map addr ns" for ns
    by (simp add: direct_Address_def direct_Build_def Address_def)
  from C7_last_known_good [where up = uri_parse and Subset = no_subset and sr = test_http_resolver
      and ?s1.0 = ?s1 and ?s2.0 = ?s2 and ?s3.0 = ?s3 and Build = direct_Build] n1 n2 n3
  have "map snapshot (http_watch uri_parse no_subset (Apply direct_Build) test_http_resolver
          [Instances ?s1, Instances ?s2, Instances ?s3]) =
           [Some (map direct_Build (http_nodes uri_parse no_subset test_http_resolver ?s1)),
            Some (map direct_Build (http_nodes uri_parse no_subset test_http_resolver ?s1)),
            Some (map direct_Build (http_nodes uri_parse no_subset test_http_resolver ?s3))]"
    by blast
  then have "map (map_option (map direct_Address) \<circ> snapshot)
     (http_watch uri_parse no_subset (Apply direct_Build) test_http_resolver
        [Instances ?s1, Instances ?s2, Instances ?s3]) =
     map (map_option (map direct_Address))
       [Some (map direct_Build (http_nodes uri_parse no_subset test_http_resolver ?s1)),
            Some (map direct_Build (http_nodes uri_parse no_subset test_http_resolver ?s1)),
            Some (map direct_Build (http_nodes uri_parse no_subset test_http_resolver ?s3))]"
    by (simp only: map_map [symmetric])
  then show ?thesis
    by (simp only: list.map option.map da test_http_nodes)
qed

lemma http_filtered_filter:
  "http_filtered up insec services =
     filter (\<lambda>ins. ept_of up (endpoint_Scheme ''http'' (\<not> insec)) ins \<noteq> []) services"
  by (induction services) (simp_all add: ept_of_def split: option.splits)

lemma grpc_filtered_fresh:
  "i \<in> set (grpc_filtered up insec ins E) \<Longrightarrow>
   i \<in> set ins \<and> ept_of up (endpoint_Scheme ''grpc'' (\<not> insec)) i \<notin> E
   \<and> ept_of up (endpoint_Scheme ''grpc'' (\<not> insec)) i \<noteq> []"
proof (induction ins arbitrary: E)
  case Nil
  then show ?case by simp
next
  case (Cons j ins)
  then show ?case
    by (fastforce simp: ept_of_def split: option.splits if_splits)
qed

lemma grpc_filtered_distinct:
  "distinct (map (ept_of up (endpoint_Scheme ''grpc'' (\<not> insec))) (grpc_filtered up insec ins E))"
proof (induction ins arbitrary: E)
  case Nil
  then show ?case by simp
next
  case (Cons j ins)
  show ?case
  proof (cases "ParseEndpoint up (Endpoints j) (endpoint_Scheme ''grpc'' (\<not> insec))")
    case None
    then show ?thesis by (simp add: Cons.IH)
  next
    case (Some ept)
    show ?thesis
    proof (cases "ept = [] \<or> ept \<in> E")
      case True
      with Some show ?thesis by (auto simp: Cons.IH)
    next
      case False
      have "ept \<notin> ept_of up (endpoint_Scheme ''grpc'' (\<not> insec)) ` set (grpc_filtered up insec ins (insert ept E))"
        using grpc_filtered_fresh [of _ up insec ins "insert ept E"] by auto
      moreover have "ept_of up (endpoint_Scheme ''grpc'' (\<not> insec)) j = ept"
        using Some by (simp add: ept_of_def)
      ultimately show ?thesis
        using Some False by (simp add: Cons.IH)
    qed
  qed
qed

lemma grpc_addrs_distinct:
  "subsetSize r = 0 \<Longrightarrow> distinct (map Addr (grpc_addrs up Subset r ins))"
  using grpc_filtered_distinct [of up "insecure r" ins "{}"]
  by (simp add: grpc_addrs_def comp_def)

text \<open>
  C8. The gRPC \<^verbatim>\<open>update\<close> keeps one instance per address; the HTTP \<^verbatim>\<open>update\<close> has no
  such step. Two instances with the HTTP endpoint 127.0.0.1:8000 and the gRPC endpoint
  127.0.0.1:9000 give the HTTP resolver two nodes at 127.0.0.1:8000, and the gRPC
  resolver one address.
\<close>

theorem C8_http_keeps_duplicates:
  "map addr (http_nodes uri_parse no_subset test_http_resolver
      [test_service ''a'' ''127.0.0.1:9000'' ''127.0.0.1:8000'',
       test_service ''b'' ''127.0.0.1:9000'' ''127.0.0.1:8000'']) = [''127.0.0.1:8000'', ''127.0.0.1:8000'']
   \<and> map Addr (grpc_addrs uri_parse no_subset test_grpc_resolver
      [test_service ''a'' ''127.0.0.1:9000'' ''127.0.0.1:8000'',
       test_service ''b'' ''127.0.0.1:9000'' ''127.0.0.1:8000'']) = [''127.0.0.1:9000'']
   \<and> map (map_option (map direct_Address) \<circ> snapshot)
       (http_watch uri_parse no_subset (Apply direct_Build) test_http_resolver
         [Instances [test_service ''a'' ''127.0.0.1:9000'' ''127.0.0.1:8000'',
                     test_service ''b'' ''127.0.0.1:9000'' ''127.0.0.1:8000'']])
       = [Some [''127.0.0.1:8000'', ''127.0.0.1:8000'']]"
  by (simp add: http_nodes_def grpc_addrs_def test_http_resolver_def test_grpc_resolver_def
      endpoint_Scheme_def test_endpoints ept_of_def NewNode_addr no_subset_def
      http_update_def Apply_def direct_Address_def direct_Build_def Address_def)

section \<open>Codec selection\<close>


lemma codec_loop_none:
  "(\<forall>a \<in> set vs. reg (ContentSubtype a) = None) \<Longrightarrow> codec_loop reg vs = None"
  by (induction vs) (simp_all add: GetCodec_def)

lemma CodecForRequest_fallback:
  assumes "\<forall>a \<in> set (header_values (Header r) k). reg (ContentSubtype a) = None"
  shows "CodecForRequest reg r k = (reg ''json'', False)"
  using codec_loop_none [OF assms] by (simp add: CodecForRequest_def GetCodec_def)

lemma ContentSubtype_examples:
  "ContentSubtype ''application/unknown'' = ''unknown''"
  "ContentSubtype ''application/json; charset=utf-8'' = ''json''"
  "ContentSubtype ''application/xml'' = ''xml''"
  "ContentSubtype ''text'' = []"
  by (simp_all add: ContentSubtype_def)

text \<open>
  C9, as stated, fails for the request body: with the content type
  \<^verbatim>\<open>application/unknown\<close>, for which no codec is registered, \<^verbatim>\<open>DefaultRequestDecoder\<close>
  returns the error 400 CODEC and does not decode the body with the JSON codec.
\<close>

theorem C9_codec_fallback_counterexample:
  "GetCodec test_registry (ContentSubtype ''application/unknown'') = None
   \<and> DefaultRequestDecoder test_registry (test_request ''Content-Type'' ''application/unknown'') =
       Err (BadRequest ''CODEC'' ''unregister Content-Type: application/unknown'')
   \<and> Unmarshal (tag_codec ''json'') (Body (test_request ''Content-Type'' ''application/unknown'')) =
       Inr (''json'', ''{}'')
   \<and> DefaultRequestDecoder test_registry (test_request ''Content-Type'' ''application/unknown'') \<noteq>
       Ok (Some (''json'', ''{}''))"
  by (simp add: DefaultRequestDecoder_def CodecForRequest_def GetCodec_def test_registry_def
      test_request_def header_values_def header_Get_def ContentSubtype_examples tag_codec_def)

text \<open>
  C9, amended. With a JSON codec registered: when no value of the Accept header names a
  registered codec, \<^verbatim>\<open>CodecForRequest\<close> returns the JSON codec and the response and error
  encoders marshal with it and set its content type. When no value of the Content-Type
  header names a registered codec, \<^verbatim>\<open>CodecForRequest\<close> returns the JSON codec with
  \<open>ok = false\<close>, and \<^verbatim>\<open>DefaultRequestDecoder\<close> returns the error 400 CODEC
  "unregister Content-Type: ..." without decoding.
\<close>

theorem C9_codec_fallback:
  assumes json: "reg ''json'' = Some jsonc"
  shows "((\<forall>a \<in> set (header_values (Header r) ''Accept''). reg (ContentSubtype a) = None) \<longrightarrow>
            CodecForRequest reg r ''Accept'' = (Some jsonc, False)
            \<and> DefaultResponseEncoder reg w r (Value x) =
                (case Marshal jsonc (Reply x) of
                   Inl e \<Rightarrow> Ok (w, Some e)
                 | Inr data \<Rightarrow>
                     Ok (w\<lparr>w_Header := (w_Header w)(''Content-Type'' \<mapsto> [ContentType (codec_Name jsonc)]),
                           w_Body := w_Body w @ data\<rparr>, None))
            \<and> DefaultErrorEncoder reg w r se =
                (case Marshal jsonc (Status se) of
                   Inl e \<Rightarrow> Ok (w\<lparr>w_Status := Some 500\<rparr>)
                 | Inr data \<Rightarrow>
                     Ok (w\<lparr>w_Header := (w_Header w)(''Content-Type'' \<mapsto> [ContentType (codec_Name jsonc)]),
                           w_Status := Some (Code se),
                           w_Body := w_Body w @ data\<rparr>)))
         \<and> ((\<forall>a \<in> set (header_values (Header r) ''Content-Type''). reg (ContentSubtype a) = None) \<longrightarrow>
            CodecForRequest reg r ''Content-Type'' = (Some jsonc, False)
            \<and> DefaultRequestDecoder reg r =
                Err (BadRequest ''CODEC''
                       (''unregister Content-Type: '' @ header_Get (Header r) ''Content-Type'')))"
proof -
  have acc: "CodecForRequest reg r ''Accept'' = (Some jsonc, False)"
    if "\<forall>a \<in> set (header_values (Header r) ''Accept''). reg (ContentSubtype a) = None"
    using CodecForRequest_fallback [OF that] json by simp
  have ct: "CodecForRequest reg r ''Content-Type'' = (Some jsonc, False)"
    if "\<forall>a \<in> set (header_values (Header r) ''Content-Type''). reg (ContentSubtype a) = None"
    using CodecForRequest_fallback [OF that] json by simp
  show ?thesis
  proof (intro conjI impI)
    assume h: "\<forall>a \<in> set (header_values (Header r) ''Accept''). reg (ContentSubtype a) = None"
    show "CodecForRequest reg r ''Accept'' = (Some jsonc, False)" by (rule acc [OF h])
    show "DefaultResponseEncoder reg w r (Value x) =
                (case Marshal jsonc (Reply x) of
                   Inl e \<Rightarrow> Ok (w, Some e)
                 | Inr data \<Rightarrow>
                     Ok (w\<lparr>w_Header := (w_Header w)(''Content-Type'' \<mapsto> [ContentType (codec_Name jsonc)]),
                           w_Body := w_Body w @ data\<rparr>, None))"
      by (simp add: DefaultResponseEncoder_def acc [OF h])
    show "DefaultErrorEncoder reg w r se =
                (case Marshal jsonc (Status se) of
                   Inl e \<Rightarrow> Ok (w\<lparr>w_Status := Some 500\<rparr>)
                 | Inr data \<Rightarrow>
                     Ok (w\<lparr>w_Header := (w_Header w)(''Content-Type'' \<mapsto> [ContentType (codec_Name jsonc)]),
                           w_Status := Some (Code se),
                           w_Body := w_Body w @ data\<rparr>))"
      by (simp add: DefaultErrorEncoder_def acc [OF h])
  next
    assume h: "\<forall>a \<in> set (header_values (Header r) ''Content-Type''). reg (ContentSubtype a) = None"
    show "CodecForRequest reg r ''Content-Type'' = (Some jsonc, False)" by (rule ct [OF h])
    show "DefaultRequestDecoder reg r =
                Err (BadRequest ''CODEC''
                       (''unregister Content-Type: '' @ header_Get (Header r) ''Content-Type''))"
      by (simp add: DefaultRequestDecoder_def ct [OF h])
  qed
qed

theorem C9_codec_fallback_witness:
  "CodecForRequest test_registry (test_request ''Accept'' ''application/unknown'') ''Accept'' =
     (Some (tag_codec ''json''), False)
   \<and> DefaultResponseEncoder test_registry empty_writer
        (test_request ''Accept'' ''application/unknown'') (Value (''reply'', ''hello'')) =
       Ok (\<lparr>w_Header = [''Content-Type'' \<mapsto> [''application/json'']], w_Status = None,
            w_Body = ''json:hello''\<rparr>, None)
   \<and> DefaultErrorEncoder test_registry empty_writer
        (test_request ''Accept'' ''application/unknown'') ErrNoAvailable =
       Ok \<lparr>w_Header = [''Content-Type'' \<mapsto> [''application/json'']], w_Status = Some 503,
           w_Body = ''json:no_available_node''\<rparr>
   \<and> DefaultResponseEncoder test_registry empty_writer
        (test_request ''Accept'' ''application/xml'') (Value (''reply'', ''hello'')) =
       Ok (\<lparr>w_Header = [''Content-Type'' \<mapsto> [''application/xml'']], w_Status = None,
            w_Body = ''xml:hello''\<rparr>, None)
   \<and> DefaultRequestDecoder test_registry (test_request ''Accept'' ''application/unknown'') =
       Err (BadRequest ''CODEC'' ''unregister Content-Type: '')"
proof -
  have j: "test_registry ''json'' = Some (tag_codec ''json'')"
    by (simp add: test_registry_def)
  have a: "\<forall>a \<in> set (header_values (Header (test_request ''Accept'' ''application/unknown'')) ''Accept'').
             test_registry (ContentSubtype a) = None"
    by (simp add: test_request_def header_values_def ContentSubtype_examples test_registry_def)
  have c: "\<forall>a \<in> set (header_values (Header (test_request ''Accept'' ''application/unknown'')) ''Content-Type'').
             test_registry (ContentSubtype a) = None"
    by (simp add: test_request_def header_values_def)
  have x: "DefaultResponseEncoder test_registry empty_writer
        (test_request ''Accept'' ''application/xml'') (Value (''reply'', ''hello'')) =
       Ok (\<lparr>w_Header = [''Content-Type'' \<mapsto> [''application/xml'']], w_Status = None,
            w_Body = ''xml:hello''\<rparr>, None)"
    by (simp add: DefaultResponseEncoder_def CodecForRequest_def GetCodec_def test_registry_def
        test_request_def header_values_def ContentSubtype_examples tag_codec_def empty_writer_def
        ContentType_def baseContentType_def)
  from C9_codec_fallback [where reg = test_registry and jsonc = "tag_codec ''json''"
      and r = "test_request ''Accept'' ''application/unknown''" and w = empty_writer
      and x = "(''reply'', ''hello'')" and se = ErrNoAvailable, OF j] a c x
  show ?thesis
    by (simp add: tag_codec_def empty_writer_def ContentType_def baseContentType_def
        ErrNoAvailable_def ServiceUnavailable_def errors_New_def test_request_def header_Get_def
        header_values_def)
qed

section \<open>Matching an operation\<close>


lemma scenario_state:
  "prefix_list (registered [''M0''] scenario_regs) = [''/foo/bar/'', ''/foo/'']"
  "defaults (registered [''M0''] scenario_regs) = [''M0'']"
  "matches (registered [''M0''] scenario_regs) =
     [''/foo/bar/'' \<mapsto> [''M1''], ''/foo/'' \<mapsto> [''M2''], ''/foo/bar/baz'' \<mapsto> [''M3'']]"
  by (simp_all add: registered_def scenario_regs_def Add_def Use_def matcher_New_def
      HasSuffix_star_def TrimSuffix_star_def sort_desc_def Let_def less_eq_char_def less_char_def)

lemma scenario_matches:
  "Match (registered [''M0''] scenario_regs) ''/foo/bar/baz'' = [''M0'', ''M3'']"
  "Match (registered [''M0''] scenario_regs) ''/foo/bar/qux'' = [''M0'', ''M1'']"
  "Match (registered [''M0''] scenario_regs) ''/foo/other'' = [''M0'', ''M2'']"
  "Match (registered [''M0''] scenario_regs) ''/bar'' = [''M0'']"
  by (simp_all add: Match_def scenario_state)

subsection \<open>The state after the registrations\<close>

lemma registered_snoc:
  "registered dflt (regs @ [(sel, ms)]) = Add (registered dflt regs) sel ms"
  by (simp add: registered_def)

lemma registered_defaults: "defaults (registered dflt regs) = dflt"
  by (induction regs rule: rev_induct)
     (auto simp: registered_snoc Add_def Let_def, simp add: registered_def Use_def)

lemma registered_matches:
  "matches (registered dflt regs) = entry_of (map (\<lambda>(sel, ms). (TrimSuffix_star sel, ms)) regs)"
proof (induction regs rule: rev_induct)
  case Nil
  show ?case by (simp add: registered_def Use_def matcher_New_def entry_of_def fun_eq_iff)
next
  case (snoc x regs)
  obtain sel ms where x: "x = (sel, ms)" by (cases x)
  show ?case
    using snoc.IH
    by (auto simp: x registered_snoc Add_def Let_def entry_of_def fun_eq_iff TrimSuffix_star_def)
qed

lemma registered_prefix_set:
  "set (prefix_list (registered dflt regs)) = set (map fst (prefix_regs regs))"
proof (induction regs rule: rev_induct)
  case Nil
  show ?case by (simp add: registered_def Use_def matcher_New_def prefix_regs_def)
next
  case (snoc x regs)
  obtain sel ms where x: "x = (sel, ms)" by (cases x)
  show ?case
    using snoc.IH
    by (auto simp: x registered_snoc Add_def Let_def prefix_regs_def sort_desc_def TrimSuffix_star_def)
qed

lemma registered_prefix_sorted: "sorted (rev (prefix_list (registered dflt regs)))"
proof (induction regs rule: rev_induct)
  case Nil
  show ?case by (simp add: registered_def Use_def matcher_New_def)
next
  case (snoc x regs)
  obtain sel ms where x: "x = (sel, ms)" by (cases x)
  show ?case
    using snoc.IH
    by (auto simp: x registered_snoc Add_def Let_def sort_desc_def)
qed

subsection \<open>The first match in descending order is the longest\<close>

lemma strict_prefix_less:
  fixes p q :: string
  assumes "prefix p q" and "p \<noteq> q"
  shows "p < q"
proof -
  from assms obtain z where q: "q = p @ z" and "z \<noteq> []"
    by (auto simp: prefix_def)
  then obtain b zs where "z = b # zs" by (cases z) auto
  with q show ?thesis
    by (simp add: list_less_def lexord_append_rightI)
qed

lemma prefixes_le_length:
  fixes b p :: string
  assumes "prefix b operation" and "prefix p operation" and "b \<le> p"
  shows "length b \<le> length p"
proof -
  from assms(1,2) have "prefix b p \<or> prefix p b"
    by (rule prefix_same_cases)
  then show ?thesis
  proof
    assume "prefix b p"
    then show ?thesis by (rule prefix_length_le)
  next
    assume pb: "prefix p b"
    show ?thesis
    proof (cases "p = b")
      case True
      then show ?thesis by simp
    next
      case False
      with pb have "p < b" by (rule strict_prefix_less)
      with assms(3) show ?thesis by simp
    qed
  qed
qed

lemma prefixes_same_length:
  assumes "prefix b operation" and "prefix p operation" and "length b = length p"
  shows "b = p"
  using assms by (auto simp: prefix_def)

lemma longest_None: "longest xs = None \<longleftrightarrow> xs = []"
  by (cases xs) (auto split: option.splits)

lemma longest_mem: "longest xs = Some b \<Longrightarrow> b \<in> set xs"
  by (induction xs arbitrary: b) (auto split: option.splits if_splits)

lemma longest_max: "longest xs = Some b \<Longrightarrow> x \<in> set xs \<Longrightarrow> length x \<le> length b"
proof (induction xs arbitrary: b)
  case Nil
  then show ?case by simp
next
  case (Cons y ys)
  show ?case
  proof (cases "longest ys")
    case None
    then have "ys = []" by (simp add: longest_None)
    with Cons.prems None show ?thesis by simp
  next
    case (Some c)
    with Cons.prems Cons.IH [OF Some] show ?thesis
      by (fastforce split: if_splits)
  qed
qed

lemma longest_unique:
  assumes "set xs = set ys" and "\<forall>x \<in> set xs. prefix x operation"
  shows "longest xs = longest ys"
proof (cases "longest xs")
  case None
  with assms(1) show ?thesis by (simp add: longest_None)
next
  case (Some b)
  then have "xs \<noteq> []" by auto
  with assms(1) have "ys \<noteq> []" by auto
  then obtain c where c: "longest ys = Some c"
    by (cases "longest ys") (auto simp: longest_None)
  have "b \<in> set ys" using longest_mem [OF Some] assms(1) by simp
  then have 1: "length b \<le> length c" by (rule longest_max [OF c])
  have "c \<in> set xs" using longest_mem [OF c] assms(1) by simp
  then have 2: "length c \<le> length b" by (rule longest_max [OF Some])
  have "prefix b operation" "prefix c operation"
    using longest_mem [OF Some] \<open>c \<in> set xs\<close> assms(2) by auto
  with 1 2 have "b = c" by (intro prefixes_same_length) auto
  with Some c show ?thesis by simp
qed

lemma match_prefix_longest:
  "sorted (rev ps) \<Longrightarrow>
   match_prefix mt ps operation =
     map_option (\<lambda>p. case mt p of None \<Rightarrow> [] | Some ms \<Rightarrow> ms)
       (longest (filter (\<lambda>p. prefix p operation) ps))"
proof (induction ps)
  case Nil
  then show ?case by simp
next
  case (Cons p ps)
  from Cons.prems have srt: "sorted (rev ps)" and le: "\<forall>q \<in> set ps. q \<le> p"
    by (auto simp: sorted_append)
  show ?case
  proof (cases "prefix p operation")
    case False
    with Cons.IH [OF srt] show ?thesis by simp
  next
    case True
    have "longest (p # filter (\<lambda>p. prefix p operation) ps) = Some p"
    proof (cases "longest (filter (\<lambda>p. prefix p operation) ps)")
      case None
      then show ?thesis by simp
    next
      case (Some b)
      from longest_mem [OF Some] have b: "b \<in> set ps" "prefix b operation" by auto
      with le have "b \<le> p" by simp
      with b(2) True have len: "length b \<le> length p" by (intro prefixes_le_length)
      show ?thesis
      proof (cases "length b < length p")
        case True
        with Some show ?thesis by simp
      next
        case False
        with len have "length b = length p" by simp
        with b(2) True have "b = p" by (intro prefixes_same_length)
        with Some False show ?thesis by simp
      qed
    qed
    with True show ?thesis by simp
  qed
qed


subsection \<open>Entries of the shared map\<close>

lemma entry_of_Cons:
  "entry_of ((a, b) # kvs) k =
     (case entry_of kvs k of None \<Rightarrow> (if k = a then Some b else None) | Some v \<Rightarrow> Some v)"
  by (simp add: entry_of_def map_add_def split: option.splits)

lemma entry_of_None: "entry_of kvs k = None \<longleftrightarrow> k \<notin> fst ` set kvs"
  by (simp add: entry_of_def map_of_eq_None_iff)

lemma exact_regs_Cons:
  "exact_regs ((sel, ms) # regs) =
     (if HasSuffix_star sel then exact_regs regs else (sel, ms) # exact_regs regs)"
  by (simp add: exact_regs_def)

lemma prefix_regs_Cons:
  "prefix_regs ((sel, ms) # regs) =
     (if HasSuffix_star sel then (butlast sel, ms) # prefix_regs regs else prefix_regs regs)"
  by (simp add: prefix_regs_def)

lemma entry_of_exact:
  "k \<notin> fst ` set (prefix_regs regs) \<Longrightarrow>
   entry_of (map (\<lambda>(sel, ms). (TrimSuffix_star sel, ms)) regs) k = entry_of (exact_regs regs) k"
proof (induction regs)
  case Nil
  then show ?case by (simp add: exact_regs_def)
next
  case (Cons x regs)
  obtain sel ms where x: "x = (sel, ms)" by (cases x)
  show ?case
  proof (cases "HasSuffix_star sel")
    case True
    with Cons.prems have k: "k \<noteq> butlast sel" and "k \<notin> fst ` set (prefix_regs regs)"
      by (auto simp: x prefix_regs_Cons)
    from Cons.IH [OF this(2)] k True show ?thesis
      by (simp add: x entry_of_Cons exact_regs_Cons TrimSuffix_star_def split: option.splits)
  next
    case False
    with Cons.prems have "k \<notin> fst ` set (prefix_regs regs)"
      by (simp add: x prefix_regs_Cons)
    from Cons.IH [OF this] False show ?thesis
      by (simp add: x entry_of_Cons exact_regs_Cons TrimSuffix_star_def)
  qed
qed

lemma entry_of_prefix:
  "k \<notin> fst ` set (exact_regs regs) \<Longrightarrow>
   entry_of (map (\<lambda>(sel, ms). (TrimSuffix_star sel, ms)) regs) k = entry_of (prefix_regs regs) k"
proof (induction regs)
  case Nil
  then show ?case by (simp add: prefix_regs_def)
next
  case (Cons x regs)
  obtain sel ms where x: "x = (sel, ms)" by (cases x)
  show ?case
  proof (cases "HasSuffix_star sel")
    case True
    with Cons.prems have "k \<notin> fst ` set (exact_regs regs)"
      by (simp add: x exact_regs_Cons)
    from Cons.IH [OF this] True show ?thesis
      by (simp add: x entry_of_Cons prefix_regs_Cons TrimSuffix_star_def)
  next
    case False
    with Cons.prems have k: "k \<noteq> sel" and "k \<notin> fst ` set (exact_regs regs)"
      by (auto simp: x exact_regs_Cons)
    from Cons.IH [OF this(2)] k False show ?thesis
      by (simp add: x entry_of_Cons prefix_regs_Cons TrimSuffix_star_def split: option.splits)
  qed
qed

lemma no_collision_iff:
  "no_collision regs \<longleftrightarrow> fst ` set (exact_regs regs) \<inter> fst ` set (prefix_regs regs) = {}"
  by (auto simp: no_collision_def list_all_iff)

lemma Match_rule:
  assumes nc: "no_collision regs"
  shows "Match (registered dflt regs) operation = rule_Match dflt regs operation"
proof -
  let ?m = "registered dflt regs"
  let ?keyed = "map (\<lambda>(sel, ms). (TrimSuffix_star sel, ms)) regs"
  from nc have disj: "fst ` set (exact_regs regs) \<inter> fst ` set (prefix_regs regs) = {}"
    by (simp add: no_collision_iff)
  have mt: "matches ?m = entry_of ?keyed" by (rule registered_matches)
  have df: "defaults ?m = dflt" by (rule registered_defaults)
  show ?thesis
  proof (cases "entry_of (exact_regs regs) operation")
    case (Some ms)
    then have "operation \<in> fst ` set (exact_regs regs)"
      using entry_of_None [of "exact_regs regs" operation] by auto
    with disj have "operation \<notin> fst ` set (prefix_regs regs)" by auto
    then have "entry_of ?keyed operation = Some ms"
      using Some by (simp add: entry_of_exact)
    with Some show ?thesis
      by (simp add: Match_def rule_Match_def mt df)
  next
    case None
    then have notex: "operation \<notin> fst ` set (exact_regs regs)"
      by (simp add: entry_of_None)
    then have key: "entry_of ?keyed operation = entry_of (prefix_regs regs) operation"
      by (rule entry_of_prefix)
    let ?cands = "filter (\<lambda>p. prefix p operation) (map fst (prefix_regs regs))"
    show ?thesis
    proof (cases "entry_of (prefix_regs regs) operation")
      case (Some ms)
      then have "operation \<in> fst ` set (prefix_regs regs)"
        using entry_of_None [of "prefix_regs regs" operation] by auto
      then have mem: "operation \<in> set ?cands" by auto
      then have "?cands \<noteq> []" by (metis empty_iff list.set(1))
      then obtain b where b: "longest ?cands = Some b"
        by (cases "longest ?cands") (simp_all add: longest_None)
      from longest_mem [OF b] have pb: "prefix b operation" by simp
      from longest_max [OF b mem] have "length operation \<le> length b" .
      with pb have "b = operation"
        by (metis prefix_length_le le_antisym prefix_order.order_refl prefixes_same_length)
      with b Some \<open>entry_of (exact_regs regs) operation = None\<close> key show ?thesis
        by (simp add: Match_def rule_Match_def mt df longest_prefix_def)
    next
      case None2: None
      have same: "longest (filter (\<lambda>p. prefix p operation) (prefix_list ?m)) = longest ?cands"
        by (rule longest_unique [where operation = operation])
           (auto simp: registered_prefix_set)
      have mp: "match_prefix (matches ?m) (prefix_list ?m) operation =
                  map_option (\<lambda>p. case matches ?m p of None \<Rightarrow> [] | Some ms \<Rightarrow> ms) (longest ?cands)"
        using match_prefix_longest [OF registered_prefix_sorted [of dflt regs], of "matches ?m" operation]
          same by simp
      show ?thesis
      proof (cases "longest ?cands")
        case None
        with mp None2 key \<open>entry_of (exact_regs regs) operation = None\<close> show ?thesis
          by (simp add: Match_def rule_Match_def mt df longest_prefix_def)
      next
        case (Some p)
        from longest_mem [OF Some] have "p \<in> fst ` set (prefix_regs regs)" by auto
        with disj have "p \<notin> fst ` set (exact_regs regs)" by auto
        then have "entry_of ?keyed p = entry_of (prefix_regs regs) p"
          by (rule entry_of_prefix)
        with mp Some None2 key \<open>entry_of (exact_regs regs) operation = None\<close> show ?thesis
          by (simp add: Match_def rule_Match_def mt df longest_prefix_def)
      qed
    qed
  qed
qed

text \<open>
  C3, as stated, fails when an exact selector is a prefix selector without its star: both
  share one key of the map. After \<^verbatim>\<open>Add("/foo/", M3)\<close> and \<^verbatim>\<open>Add("/foo/*", M2)\<close> the
  operation \<^verbatim>\<open>/foo/\<close> gets the prefix's middleware, not the exact selector's.
\<close>

theorem C3_matcher_match_counterexample:
  "Match (registered [''M0''] [(''/foo/'', [''M3'']), (''/foo/*'', [''M2''])]) ''/foo/'' = [''M0'', ''M2'']
   \<and> rule_Match [''M0''] [(''/foo/'', [''M3'']), (''/foo/*'', [''M2''])] ''/foo/'' = [''M0'', ''M3'']
   \<and> Match (registered [''M0''] [(''/foo/'', [''M3'']), (''/foo/*'', [''M2''])]) ''/foo/'' \<noteq>
       rule_Match [''M0''] [(''/foo/'', [''M3'']), (''/foo/*'', [''M2''])] ''/foo/''"
  by (simp add: Match_def registered_def Add_def Use_def matcher_New_def HasSuffix_star_def
      TrimSuffix_star_def sort_desc_def Let_def rule_Match_def entry_of_def exact_regs_def)

text \<open>
  C3, amended. When no exact selector is a prefix selector without its star, \<^verbatim>\<open>Match\<close>
  returns the default middleware followed by the entry of the exact selector registered
  for the operation, otherwise by the entry of the longest registered prefix that is a
  prefix of the operation, and the defaults alone when nothing matches. \<^verbatim>\<open>Match\<close> does not
  change the matcher, so it returns the same list when called again. The scenario
  resolves as stated.
\<close>

theorem C3_matcher_match:
  assumes "no_collision regs"
  shows "Match (registered dflt regs) operation = rule_Match dflt regs operation
         \<and> Match (registered [''M0''] scenario_regs) ''/foo/bar/baz'' = [''M0'', ''M3'']
         \<and> Match (registered [''M0''] scenario_regs) ''/foo/bar/qux'' = [''M0'', ''M1'']
         \<and> Match (registered [''M0''] scenario_regs) ''/foo/other'' = [''M0'', ''M2'']"
  using Match_rule [OF assms] scenario_matches by simp

theorem C3_matcher_match_witness:
  "no_collision scenario_regs
   \<and> rule_Match [''M0''] scenario_regs ''/foo/bar/baz'' = [''M0'', ''M3'']
   \<and> rule_Match [''M0''] scenario_regs ''/foo/bar/qux'' = [''M0'', ''M1'']
   \<and> rule_Match [''M0''] scenario_regs ''/foo/other'' = [''M0'', ''M2'']
   \<and> rule_Match [''M0''] scenario_regs ''/bar'' = [''M0'']
   \<and> Match (registered [''M0''] scenario_regs) ''/bar'' = [''M0'']"
proof -
  have nc: "no_collision scenario_regs"
    by (simp add: no_collision_def scenario_regs_def exact_regs_def prefix_regs_def
        HasSuffix_star_def)
  from C3_matcher_match [OF nc, of "[''M0'']" "''/foo/bar/baz''"]
       C3_matcher_match [OF nc, of "[''M0'']" "''/foo/bar/qux''"]
       C3_matcher_match [OF nc, of "[''M0'']" "''/foo/other''"]
       C3_matcher_match [OF nc, of "[''M0'']" "''/bar''"] nc scenario_matches(4)
  show ?thesis by simp
qed

section \<open>Power of two choices\<close>


lemma p2c_indices:
  assumes "2 \<le> (n::nat)"
  shows "ra mod n < n" "rb mod (n - 1) < n - 1"
    "(if rb mod (n - 1) \<ge> ra mod n then rb mod (n - 1) + 1 else rb mod (n - 1)) < n"
    "ra mod n \<noteq> (if rb mod (n - 1) \<ge> ra mod n then rb mod (n - 1) + 1 else rb mod (n - 1))"
proof -
  from assms have n: "0 < n" and m: "0 < n - 1" by linarith+
  show a: "ra mod n < n" by (rule mod_less_divisor [OF n])
  show c: "rb mod (n - 1) < n - 1" by (rule mod_less_divisor [OF m])
  from c show "(if rb mod (n - 1) \<ge> ra mod n then rb mod (n - 1) + 1 else rb mod (n - 1)) < n"
    by (auto simp del: One_nat_def)
  show "ra mod n \<noteq> (if rb mod (n - 1) \<ge> ra mod n then rb mod (n - 1) + 1 else rb mod (n - 1))"
    by (auto simp del: One_nat_def)
qed

lemma p2c_pairs_bij:
  fixes n :: nat
  shows "bij_betw (\<lambda>(a, c). (a, if c \<ge> a then c + 1 else c))
     ({..<n} \<times> {..<n - 1}) {(a, b). a < n \<and> b < n \<and> a \<noteq> b}"
proof (rule bij_betw_byWitness [where f' = "\<lambda>(a, b). (a, if b > a then b - 1 else b)"])
  show "\<forall>x \<in> {..<n} \<times> {..<n - 1}.
          (case (case x of (a, c) \<Rightarrow> (a, if a \<le> c then c + 1 else c)) of
             (a, b) \<Rightarrow> (a, if a < b then b - 1 else b)) = x"
    by auto
  show "\<forall>y \<in> {(a, b). a < n \<and> b < n \<and> a \<noteq> b}.
          (case (case y of (a, b) \<Rightarrow> (a, if a < b then b - 1 else b)) of
             (a, c) \<Rightarrow> (a, if a \<le> c then c + 1 else c)) = y"
    by auto
  show "(\<lambda>(a, c). (a, if a \<le> c then c + 1 else c)) ` ({..<n} \<times> {..<n - 1})
          \<subseteq> {(a, b). a < n \<and> b < n \<and> a \<noteq> b}"
    by (auto split: if_splits)
  show "(\<lambda>(a, b). (a, if a < b then b - 1 else b)) ` {(a, b). a < n \<and> b < n \<and> a \<noteq> b}
          \<subseteq> {..<n} \<times> {..<n - 1}"
    by (auto split: if_splits)
qed

lemma p2c_Pick_two:
  fixes W :: "'w \<Rightarrow> 'v::linorder"
  assumes two: "2 \<le> length nodes"
  shows "p2c_Pick W E PickN ra rb s nodes =
     (let n = length nodes;
          a = ra mod n;
          c = rb mod (n - 1);
          b = (if c \<ge> a then c + 1 else c);
          nodeA = nodes ! a;
          nodeB = nodes ! b;
          pc = (if W nodeB > W nodeA then nodeB else nodeA);
          upc = (if W nodeB > W nodeA then nodeA else nodeB)
      in if E upc > 3 * 1000000000 \<and> picked s = 0
         then Ok (upc, Some (PickN upc), s\<lparr>picked := 0\<rparr>)
         else Ok (pc, Some (PickN pc), s))"
proof -
  from two have l: "length nodes \<noteq> 0" "length nodes \<noteq> 1" by linarith+
  show ?thesis
    using l
    by (simp add: p2c_Pick_def prePick_indices [OF two] Let_def CompareAndSwapInt64_def
        forcePick_def del: One_nat_def)
qed


text \<open>
  C5. On the empty list \<^verbatim>\<open>Pick\<close> returns \<^verbatim>\<open>ErrNoAvailable\<close>, on a single node that node.
  With \<open>n \<ge> 2\<close> candidates the first index \<open>a\<close> lies in \<open>[0, n)\<close>, the second draw in
  \<open>[0, n - 1)\<close>, and the second index \<open>b\<close>, the draw plus one when the draw is at least
  \<open>a\<close>, lies in \<open>[0, n)\<close> and differs from \<open>a\<close>; the pairs of draws correspond one to one
  to the pairs of distinct indices. The node of the larger weight is picked (the first
  on a tie), unless the other node was last picked more than 3 s ago and the flag is
  free, when the other node is picked and the flag is free again afterwards.
\<close>

theorem C5_p2c_pick:
  fixes W :: "'w \<Rightarrow> 'v::linorder"
  shows "p2c_Pick W E PickN ra rb s [] = Err ErrNoAvailable
   \<and> p2c_Pick W E PickN ra rb s [x] = Ok (x, Some (PickN x), s)
   \<and> (2 \<le> length nodes \<longrightarrow>
        ra mod length nodes < length nodes
        \<and> rb mod (length nodes - 1) < length nodes - 1
        \<and> (if rb mod (length nodes - 1) \<ge> ra mod length nodes
            then rb mod (length nodes - 1) + 1 else rb mod (length nodes - 1)) < length nodes
        \<and> ra mod length nodes \<noteq>
            (if rb mod (length nodes - 1) \<ge> ra mod length nodes
             then rb mod (length nodes - 1) + 1 else rb mod (length nodes - 1))
        \<and> p2c_Pick W E PickN ra rb s nodes =
            (let n = length nodes;
                 a = ra mod n;
                 c = rb mod (n - 1);
                 b = (if c \<ge> a then c + 1 else c);
                 nodeA = nodes ! a;
                 nodeB = nodes ! b;
                 pc = (if W nodeB > W nodeA then nodeB else nodeA);
                 upc = (if W nodeB > W nodeA then nodeA else nodeB)
             in if E upc > 3 * 1000000000 \<and> picked s = 0
                then Ok (upc, Some (PickN upc), s\<lparr>picked := 0\<rparr>)
                else Ok (pc, Some (PickN pc), s)))
   \<and> bij_betw (\<lambda>(a, c). (a, if c \<ge> a then c + 1 else c))
        ({..<length nodes} \<times> {..<length nodes - 1})
        {(a, b). a < length nodes \<and> b < length nodes \<and> a \<noteq> b}"
proof -
  have e: "p2c_Pick W E PickN ra rb s [] = Err ErrNoAvailable"
    by (simp add: p2c_Pick_def)
  have o: "p2c_Pick W E PickN ra rb s [x] = Ok (x, Some (PickN x), s)"
    by (simp add: p2c_Pick_def)
  have t: "2 \<le> length nodes \<longrightarrow>
        ra mod length nodes < length nodes
        \<and> rb mod (length nodes - 1) < length nodes - 1
        \<and> (if rb mod (length nodes - 1) \<ge> ra mod length nodes
            then rb mod (length nodes - 1) + 1 else rb mod (length nodes - 1)) < length nodes
        \<and> ra mod length nodes \<noteq>
            (if rb mod (length nodes - 1) \<ge> ra mod length nodes
             then rb mod (length nodes - 1) + 1 else rb mod (length nodes - 1))
        \<and> p2c_Pick W E PickN ra rb s nodes =
            (let n = length nodes;
                 a = ra mod n;
                 c = rb mod (n - 1);
                 b = (if c \<ge> a then c + 1 else c);
                 nodeA = nodes ! a;
                 nodeB = nodes ! b;
                 pc = (if W nodeB > W nodeA then nodeB else nodeA);
                 upc = (if W nodeB > W nodeA then nodeA else nodeB)
             in if E upc > 3 * 1000000000 \<and> picked s = 0
                then Ok (upc, Some (PickN upc), s\<lparr>picked := 0\<rparr>)
                else Ok (pc, Some (PickN pc), s))"
  proof
    assume two: "2 \<le> length nodes"
    show "ra mod length nodes < length nodes
        \<and> rb mod (length nodes - 1) < length nodes - 1
        \<and> (if rb mod (length nodes - 1) \<ge> ra mod length nodes
            then rb mod (length nodes - 1) + 1 else rb mod (length nodes - 1)) < length nodes
        \<and> ra mod length nodes \<noteq>
            (if rb mod (length nodes - 1) \<ge> ra mod length nodes
             then rb mod (length nodes - 1) + 1 else rb mod (length nodes - 1))
        \<and> p2c_Pick W E PickN ra rb s nodes =
            (let n = length nodes;
                 a = ra mod n;
                 c = rb mod (n - 1);
                 b = (if c \<ge> a then c + 1 else c);
                 nodeA = nodes ! a;
                 nodeB = nodes ! b;
                 pc = (if W nodeB > W nodeA then nodeB else nodeA);
                 upc = (if W nodeB > W nodeA then nodeA else nodeB)
             in if E upc > 3 * 1000000000 \<and> picked s = 0
                then Ok (upc, Some (PickN upc), s\<lparr>picked := 0\<rparr>)
                else Ok (pc, Some (PickN pc), s))"
      by (intro conjI p2c_indices [OF two] p2c_Pick_two [OF two])
  qed
  show ?thesis
    using e o t p2c_pairs_bij [of "length nodes"] by blast
qed

theorem C5_p2c_pick_witness:
  "p2c_Pick (\<lambda>n. fst (snd n)) (\<lambda>n. snd (snd n)) (\<lambda>n. NoopDone) 4 3 p2c_Build
      [(''a'', 5::int, 0), (''b'', 7, 0), (''c'', 9, 0)] = Ok ((''c'', 9, 0), Some NoopDone, p2c_Build)
   \<and> p2c_Pick (\<lambda>n. fst (snd n)) (\<lambda>n. snd (snd n)) (\<lambda>n. NoopDone) 4 3 p2c_Build
      [(''a'', 5::int, 0), (''b'', 7, 3000000001), (''c'', 9, 0)] =
        Ok ((''b'', 7, 3000000001), Some NoopDone, p2c_Build)
   \<and> p2c_Pick (\<lambda>n. fst (snd n)) (\<lambda>n. snd (snd n)) (\<lambda>n. NoopDone) 4 3 \<lparr>picked = 1\<rparr>
      [(''a'', 5::int, 0), (''b'', 7, 3000000001), (''c'', 9, 0)] =
        Ok ((''c'', 9, 0), Some NoopDone, \<lparr>picked = 1\<rparr>)
   \<and> p2c_Pick (\<lambda>n. fst (snd n)) (\<lambda>n. snd (snd n)) (\<lambda>n. NoopDone) 4 3 p2c_Build
      [(''a'', 5::int, 0), (''b'', 7, 3000000000), (''c'', 7, 0)] =
        Ok ((''b'', 7, 3000000000), Some NoopDone, p2c_Build)"
proof -
  have l: "2 \<le> length [(''a'', 5::int, 0::int), (''b'', 7, t), (''c'', w, 0)]" for t w
    by simp
  note t = C5_p2c_pick [where ra = 4 and rb = 3 and W = "\<lambda>n. fst (snd n)" and E = "\<lambda>n. snd (snd n)"
      and PickN = "\<lambda>n. NoopDone"]
  from t [where nodes = "[(''a'', 5::int, 0), (''b'', 7, 0), (''c'', 9, 0)]" and s = p2c_Build]
       t [where nodes = "[(''a'', 5::int, 0), (''b'', 7, 3000000001), (''c'', 9, 0)]" and s = p2c_Build]
       t [where nodes = "[(''a'', 5::int, 0), (''b'', 7, 3000000001), (''c'', 9, 0)]" and s = "\<lparr>picked = 1\<rparr>"]
       t [where nodes = "[(''a'', 5::int, 0), (''b'', 7, 3000000000), (''c'', 7, 0)]" and s = p2c_Build]
  show ?thesis
    by (simp add: p2c_Build_def Let_def numeral_3_eq_3 [symmetric] numeral_2_eq_2 [symmetric])
qed

section \<open>The EWMA weight\<close>


lemma isqrt_bounds: "isqrt n * isqrt n \<le> n \<and> n < (isqrt n + 1) * (isqrt n + 1)"
proof (induction n rule: isqrt.induct)
  case (1 n)
  show ?case
  proof (cases "n < 2")
    case True
    then have "n = 0 \<or> n = 1" by auto
    then show ?thesis by (auto simp: isqrt.simps [of 0] isqrt.simps [of 1] isqrt.simps [of "Suc 0"])
  next
    case False
    define q where "q = isqrt (n div 4)"
    from "1.IH" False have ih: "q * q \<le> n div 4" "n div 4 < (q + 1) * (q + 1)"
      by (simp_all add: q_def)
    have lo: "(2 * q) * (2 * q) \<le> n"
    proof -
      have "(2 * q) * (2 * q) = 4 * (q * q)" by simp
      also have "\<dots> \<le> 4 * (n div 4)" using ih(1) by simp
      also have "\<dots> \<le> n" by simp
      finally show ?thesis .
    qed
    have hi: "n < (2 * q + 2) * (2 * q + 2)"
    proof -
      have "n < 4 * (n div 4) + 4"
        using div_mult_mod_eq [of n 4] mod_less_divisor [of 4 n] by linarith
      also have "\<dots> \<le> 4 * ((q + 1) * (q + 1))" using ih(2) by simp
      also have "\<dots> = (2 * q + 2) * (2 * q + 2)" by (simp add: algebra_simps)
      finally show ?thesis .
    qed
    have eq: "isqrt n = (if (2 * q + 1) * (2 * q + 1) \<le> n then 2 * q + 1 else 2 * q)"
      using False by (subst isqrt.simps) (simp add: q_def Let_def)
    show ?thesis
    proof (cases "(2 * q + 1) * (2 * q + 1) \<le> n")
      case True
      with eq hi show ?thesis by (simp add: algebra_simps)
    next
      case False
      with eq lo show ?thesis by (simp add: algebra_simps)
    qed
  qed
qed

lemma isqrt_less:
  assumes "n < b * b"
  shows "isqrt n < b"
proof (rule ccontr)
  assume "\<not> isqrt n < b"
  then have "b \<le> isqrt n" by simp
  then have "b * b \<le> isqrt n * isqrt n" by (simp add: mult_le_mono)
  with isqrt_bounds [of n] assms show False by linarith
qed


lemma isqrt_unique:
  assumes "r * r \<le> n" and "n < (r + 1) * (r + 1)"
  shows "isqrt n = r"
proof -
  have "isqrt n < r + 1" using assms(2) by (rule isqrt_less)
  moreover have "r < isqrt n + 1"
  proof (rule ccontr)
    assume "\<not> r < isqrt n + 1"
    then have le: "isqrt n + 1 \<le> r" by simp
    have "(isqrt n + 1) * (isqrt n + 1) \<le> r * r" by (rule mult_le_mono [OF le le])
    with isqrt_bounds [of n] assms(1) show False by linarith
  qed
  ultimately show ?thesis by simp
qed

lemma isqrt_examples: "isqrt 5000001 = 2236" "isqrt 0 = 0" "isqrt 16 = 4"
  by (rule isqrt_unique; simp)+

lemma i64_id: "- (2 ^ 63) \<le> x \<Longrightarrow> x < 2 ^ 63 \<Longrightarrow> i64 x = x"
  by (simp add: i64_def)

lemma u64_id: "0 \<le> x \<Longrightarrow> x < 2 ^ 64 \<Longrightarrow> u64 x = nat x"
  by (simp add: u64_def)

lemma mul64_id: "a * b < 2 ^ 64 \<Longrightarrow> mul64 a b = a * b"
  by (simp add: mul64_def)

lemma tdiv_nonneg: "0 \<le> a \<Longrightarrow> 0 < b \<Longrightarrow> tdiv a b = a div b"
  by (cases "a = 0") (simp_all add: tdiv_def)

lemma predict_loop_plain:
  assumes "\<forall>s \<in> set xs. s \<noteq> 0 \<longrightarrow> 0 \<le> now - s \<and> now - s < 2 ^ 50"
    and "0 \<le> tot" and "tot + int (length xs) * 2 ^ 50 < 2 ^ 63"
  shows "predict_loop avgLag now xs (tot, sl, tn) =
           (tot + sum_list (filter (\<lambda>a. a > avgLag) (map (\<lambda>s. now - s) (filter (\<lambda>s. s \<noteq> 0) xs))),
            sl + length (filter (\<lambda>a. a > avgLag) (map (\<lambda>s. now - s) (filter (\<lambda>s. s \<noteq> 0) xs))),
            tn + length (filter (\<lambda>s. s \<noteq> 0) xs))"
  using assms
proof (induction xs arbitrary: tot sl tn)
  case Nil
  then show ?case by simp
next
  case (Cons s xs)
  have rest: "\<forall>s \<in> set xs. s \<noteq> 0 \<longrightarrow> 0 \<le> now - s \<and> now - s < 2 ^ 50"
    using Cons.prems(1) by simp
  have room: "tot + 2 ^ 50 + int (length xs) * 2 ^ 50 < 2 ^ 63"
    using Cons.prems(3) by (simp add: algebra_simps)
  show ?case
  proof (cases "s = 0")
    case True
    have "tot + int (length xs) * 2 ^ 50 < 2 ^ 63" using room by simp
    from Cons.IH [OF rest Cons.prems(2) this] True show ?thesis by simp
  next
    case False
    with Cons.prems(1) have age: "0 \<le> now - s" "now - s < 2 ^ 50" by simp_all
    then have lg: "i64 (now - s) = now - s" by (intro i64_id) simp_all
    show ?thesis
    proof (cases "now - s > avgLag")
      case True
      have nn: "0 \<le> tot + (now - s)" using Cons.prems(2) age by simp
      have "tot + (now - s) < 2 ^ 63" using room age by simp
      with nn have w: "i64 (tot + (now - s)) = tot + (now - s)" by (intro i64_id) simp_all
      have "tot + (now - s) + int (length xs) * 2 ^ 50 < 2 ^ 63" using room age by simp
      from Cons.IH [OF rest nn this] False True lg w show ?thesis by (simp add: Let_def)
    next
      case notslow: False
      have "tot + int (length xs) * 2 ^ 50 < 2 ^ 63" using room by simp
      from Cons.IH [OF rest Cons.prems(2) this] False notslow lg show ?thesis by (simp add: Let_def)
    qed
  qed
qed


lemma sum_list_bounds:
  fixes xs :: "int list"
  assumes "\<forall>a \<in> set xs. 0 \<le> a \<and> a < B"
  shows "0 \<le> sum_list xs \<and> sum_list xs \<le> int (length xs) * B"
  using assms
proof (induction xs)
  case Nil
  then show ?case by simp
next
  case (Cons a xs)
  then have "0 \<le> sum_list xs \<and> sum_list xs \<le> int (length xs) * B" by simp
  moreover from Cons.prems have "0 \<le> a" "a < B" by simp_all
  ultimately show ?case by (simp add: algebra_simps)
qed

lemma sum_list_strict:
  fixes xs :: "int list"
  assumes "\<forall>a \<in> set xs. a < B" and "xs \<noteq> []"
  shows "sum_list xs < int (length xs) * B"
  using assms
proof (induction xs)
  case Nil
  then show ?case by simp
next
  case (Cons a xs)
  show ?case
  proof (cases "xs = []")
    case True
    with Cons.prems show ?thesis by simp
  next
    case False
    with Cons have "sum_list xs < int (length xs) * B" by simp
    moreover from Cons.prems have "a < B" by simp
    ultimately show ?thesis by (simp add: algebra_simps)
  qed
qed

lemma in_range_ages:
  assumes "in_range n now"
  shows "\<forall>s \<in> set (inflights n). s \<noteq> 0 \<longrightarrow> 0 \<le> now - s \<and> now - s < 2 ^ 50"
  using assms by (auto simp: in_range_def ages_def list_all_iff)

lemma predict_rule:
  assumes r: "in_range n now"
  shows "predict n (lag n) now = rule_predict n now"
proof -
  have len: "(0::int) + int (length (inflights n)) * 2 ^ 50 < 2 ^ 63"
  proof -
    from r have "length (inflights n) \<le> 200" by (simp add: in_range_def)
    then have "int (length (inflights n)) * 2 ^ 50 \<le> 200 * 2 ^ 50" by simp
    then show ?thesis by simp
  qed
  have loop: "predict_loop (lag n) now (inflights n) (0, 0, 0) =
          (sum_list (slow_ages n now), length (slow_ages n now), length (ages n now))"
    using predict_loop_plain [OF in_range_ages [OF r] order_refl len, of "lag n" 0 0]
    by (simp add: slow_ages_def ages_def)
  have slow: "\<forall>a \<in> set (slow_ages n now). 0 \<le> a \<and> a < 2 ^ 50"
    using r by (auto simp: in_range_def slow_ages_def list_all_iff)
  have nn: "0 \<le> sum_list (slow_ages n now)"
    using sum_list_bounds [OF slow] by simp
  have cond: "length (ages n now) div 2 + 1 \<le> length (slow_ages n now)
              \<longleftrightarrow> length (ages n now) < 2 * length (slow_ages n now)"
    by linarith
  show ?thesis
  proof (cases "length (ages n now) < 2 * length (slow_ages n now)")
    case True
    then have pos: "0 < int (length (slow_ages n now))" by (cases "slow_ages n now") auto
    from True cond have c: "length (ages n now) div 2 + 1 \<le> length (slow_ages n now)" by simp
    show ?thesis
      using True c tdiv_nonneg [OF nn pos]
      by (simp add: predict_def loop rule_predict_def)
  next
    case False
    with cond have c: "\<not> length (ages n now) div 2 + 1 \<le> length (slow_ages n now)" by simp
    show ?thesis
      using False c by (simp add: predict_def loop rule_predict_def)
  qed
qed

lemma rule_predict_bounds:
  assumes r: "in_range n now"
  shows "0 \<le> rule_predict n now \<and> rule_predict n now < 2 ^ 50"
proof (cases "length (ages n now) < 2 * length (slow_ages n now)")
  case False
  then show ?thesis by (simp add: rule_predict_def)
next
  case True
  let ?k = "int (length (slow_ages n now))"
  from True have ne: "slow_ages n now \<noteq> []" by (cases "slow_ages n now") auto
  then have pos: "0 < ?k" by simp
  have slow: "\<forall>a \<in> set (slow_ages n now). 0 \<le> a \<and> a < 2 ^ 50"
    using r by (auto simp: in_range_def slow_ages_def list_all_iff)
  from sum_list_bounds [OF slow] have nn: "0 \<le> sum_list (slow_ages n now)"
    and up: "sum_list (slow_ages n now) \<le> ?k * 2 ^ 50" by simp_all
  have lo: "0 \<le> sum_list (slow_ages n now) div ?k"
    using nn pos by (simp add: pos_imp_zdiv_nonneg_iff)
  have "sum_list (slow_ages n now) div ?k \<le> (?k * 2 ^ 50) div ?k"
    using up pos by (intro zdiv_mono1) simp_all
  also have "\<dots> = 2 ^ 50" using pos by simp
  finally have hi: "sum_list (slow_ages n now) div ?k \<le> 2 ^ 50" .
  have strict: "sum_list (slow_ages n now) div ?k < 2 ^ 50"
  proof (rule ccontr)
    assume "\<not> sum_list (slow_ages n now) div ?k < 2 ^ 50"
    with hi have eq: "sum_list (slow_ages n now) div ?k = 2 ^ 50" by simp
    have "sum_list (slow_ages n now) =
            ?k * (sum_list (slow_ages n now) div ?k) + sum_list (slow_ages n now) mod ?k"
      by simp
    moreover have "0 \<le> sum_list (slow_ages n now) mod ?k"
      using pos by simp
    ultimately have "?k * (sum_list (slow_ages n now) div ?k) \<le> sum_list (slow_ages n now)"
      by linarith
    with eq up have all: "sum_list (slow_ages n now) = ?k * 2 ^ 50" by simp
    have "sum_list (slow_ages n now) < ?k * 2 ^ 50"
      using slow ne by (intro sum_list_strict) auto
    with all show False by simp
  qed
  with lo True show ?thesis by (simp add: rule_predict_def)
qed

lemma in_range_inflight:
  assumes "in_range n now"
  shows "u64 (inflight n) = nat (inflight n)" and "nat (inflight n) < 2 ^ 32"
proof -
  from assms have b: "0 \<le> inflight n" "inflight n < 2 ^ 32" by (simp_all add: in_range_def)
  then have "inflight n < 2 ^ 64" by simp
  with b(1) show "u64 (inflight n) = nat (inflight n)" by (rule u64_id)
  from b show "nat (inflight n) < 2 ^ 32" by simp
qed

lemma load_rule:
  assumes r: "in_range n now"
  shows "load n now = Some (rule_load n now)"
proof (cases "lag n = 0")
  case True
  have "penalty * nat (inflight n) \<le> 100000 * 2 ^ 32"
    using in_range_inflight(2) [OF r] by (simp add: penalty_def)
  then have "penalty * nat (inflight n) < 2 ^ 64" by simp
  then have "mul64 penalty (nat (inflight n)) = penalty * nat (inflight n)" by (rule mul64_id)
  with True show ?thesis
    by (simp add: load_def Let_def rule_load_def in_range_inflight(1) [OF r] penalty_def)
next
  case False
  define m where "m = max (lag n) (rule_predict n now)"
  from r have lg: "0 \<le> lag n" "lag n < 2 ^ 50" by (simp_all add: in_range_def)
  from rule_predict_bounds [OF r] have pr: "0 \<le> rule_predict n now" "rule_predict n now < 2 ^ 50"
    by simp_all
  from lg pr have m: "0 \<le> m" "m < 2 ^ 50" by (simp_all add: m_def)
  have mx: "(if rule_predict n now > lag n then rule_predict n now else lag n) = m"
    by (simp add: m_def max_def)
  from m have "- (2 ^ 63) \<le> m + 5000000" "m + 5000000 < 2 ^ 63" by simp_all
  then have w: "i64 (m + 5000000) = m + 5000000" by (rule i64_id)
  from m have x: "0 \<le> m + 5000000" "m + 5000000 < 2 ^ 52" by simp_all
  then have st: "sqrt_trunc (m + 5000000) = Some (isqrt (nat (m + 5000000)))"
    unfolding sqrt_trunc_def by simp
  have "nat (m + 5000000) < 2 ^ 26 * 2 ^ 26" using x by simp
  then have root: "isqrt (nat (m + 5000000)) < 2 ^ 26" by (rule isqrt_less)
  have "isqrt (nat (m + 5000000)) * nat (inflight n) \<le> 2 ^ 26 * 2 ^ 32"
    using root in_range_inflight(2) [OF r] by (intro mult_le_mono) simp_all
  then have "isqrt (nat (m + 5000000)) * nat (inflight n) < 2 ^ 64" by simp
  then have ml: "mul64 (isqrt (nat (m + 5000000))) (nat (inflight n)) =
                 isqrt (nat (m + 5000000)) * nat (inflight n)"
    by (rule mul64_id)
  have "load n now =
          (case sqrt_trunc (i64 (m + 5000000)) of
             None \<Rightarrow> None
           | Some root \<Rightarrow> Some (mul64 root (u64 (inflight n))))"
    using False
    by (auto simp: load_def Let_def predict_rule [OF r] m_def max_def Millisecond_def)
  then have "load n now = Some (isqrt (nat (m + 5000000)) * nat (inflight n))"
    by (simp add: w st ml in_range_inflight(1) [OF r])
  moreover have "rule_load n now = isqrt (nat (m + 5000000)) * nat (inflight n)"
    using False by (simp add: rule_load_def m_def)
  ultimately show ?thesis by simp
qed

lemma health_rule:
  assumes "in_range n now"
  shows "mul64 (mul64 (health n) 1000) 10 = success n * 10000"
proof -
  from assms have s: "success n \<le> 1000" by (simp add: in_range_def)
  then have "success n * 1000 < 2 ^ 64" by simp
  then have a: "mul64 (success n) 1000 = success n * 1000" by (rule mul64_id)
  from s have "success n * 1000 * 10 < 2 ^ 64" by simp
  then have "mul64 (success n * 1000) 10 = success n * 1000 * 10" by (rule mul64_id)
  with a show ?thesis by (simp add: health_def)
qed

lemma Weight_rule:
  assumes r: "in_range n now'"
    and c: "\<forall>w. cachedWeight n = Some w \<longrightarrow> - (2 ^ 63) \<le> now - updateAt w \<and> now - updateAt w < 2 ^ 63"
  shows "ewma_Weight n now now' =
           (case cachedWeight n of
              None \<Rightarrow>
                (rule_weight n now',
                 n\<lparr>cachedWeight := Some \<lparr>weight_value = rule_weight n now', updateAt = now\<rparr>\<rparr>)
            | Some w \<Rightarrow>
                if now - updateAt w \<le> 5000000 then (weight_value w, n)
                else (rule_weight n now',
                      n\<lparr>cachedWeight := Some \<lparr>weight_value = rule_weight n now', updateAt = now\<rparr>\<rparr>))"
proof (cases "cachedWeight n")
  case None
  then show ?thesis
    by (simp add: ewma_Weight_def Let_def load_rule [OF r] health_rule [OF r] rule_weight_def)
next
  case (Some w)
  with c have "- (2 ^ 63) \<le> now - updateAt w" "now - updateAt w < 2 ^ 63" by simp_all
  then have "i64 (now - updateAt w) = now - updateAt w" by (rule i64_id)
  with Some show ?thesis
    by (simp add: ewma_Weight_def Let_def load_rule [OF r] health_rule [OF r] rule_weight_def
        Millisecond_def)
qed

lemma cached_node_simps:
  "lag cached_node = 1" "success cached_node = 1000" "inflight cached_node = 1"
  "inflights cached_node = replicate 200 0"
  "cachedWeight cached_node = Some \<lparr>weight_value = Quot 7 1, updateAt = 1000\<rparr>"
  by (simp_all add: cached_node_def ewma_Build_def)

lemma busy_node_simps:
  "lag busy_node = 4000000" "success busy_node = 1000" "inflight busy_node = 3"
  "inflights busy_node = [10000000, 14000000, 19000000] @ replicate 197 0"
  "cachedWeight busy_node = None"
  by (simp_all add: busy_node_def ewma_Build_def)

lemma predict_loop_free: "predict_loop avgLag now (replicate k 0) st = st"
  by (induction k) (cases st; simp)+

lemma predict_loop_append:
  "predict_loop avgLag now (xs @ ys) st = predict_loop avgLag now ys (predict_loop avgLag now xs st)"
proof (induction xs arbitrary: st)
  case Nil
  then show ?case by simp
next
  case (Cons x xs)
  obtain tot sl tn where st: "st = (tot, sl, tn)" by (cases st)
  show ?case by (simp add: st Let_def Cons.IH)
qed

lemma cached_node_load: "load cached_node 5001000 = Some 2236"
proof -
  have p: "predict cached_node 1 5001000 = 0"
    by (simp add: predict_def cached_node_simps predict_loop_free)
  show ?thesis
    by (simp add: load_def Let_def cached_node_simps p Millisecond_def i64_def sqrt_trunc_def
        isqrt_examples u64_def mul64_def)
qed


lemma isqrt_13ms: "isqrt 13000000 = 3605"
  by (rule isqrt_unique; simp)

lemma busy_node_rule:
  "ages busy_node 20000000 = [10000000, 6000000, 1000000]"
  "slow_ages busy_node 20000000 = [10000000, 6000000]"
  "rule_predict busy_node 20000000 = 8000000"
  "rule_load busy_node 20000000 = 10815"
  "rule_weight busy_node 20000000 = Quot 10000000 10815"
proof -
  show a: "ages busy_node 20000000 = [10000000, 6000000, 1000000]"
    by (simp add: ages_def busy_node_simps)
  show s: "slow_ages busy_node 20000000 = [10000000, 6000000]"
    by (simp add: slow_ages_def a busy_node_simps)
  show p: "rule_predict busy_node 20000000 = 8000000"
    by (simp add: rule_predict_def a s)
  show l: "rule_load busy_node 20000000 = 10815"
    by (simp add: rule_load_def p busy_node_simps isqrt_13ms)
  show "rule_weight busy_node 20000000 = Quot 10000000 10815"
    by (simp add: rule_weight_def l busy_node_simps)
qed

lemma busy_node_in_range: "in_range busy_node 20000000"
  by (simp add: in_range_def busy_node_rule(1) busy_node_simps)

text \<open>
  C6, as stated, fails in two places. A cache that is exactly 5 ms old is not younger
  than 5 ms, yet \<^verbatim>\<open>Weight()\<close> returns it: it recomputes only when the age exceeds 5 ms.
  And the load is not the square root times the requests in flight: the root is
  truncated to an integer first; with a lag of 1 ns and one request the load is 2236,
  while 5000001 has no integer root.
\<close>

theorem C6_ewma_weight_counterexample:
  "\<not> younger_than_5ms cached_node 5001000
   \<and> fst (ewma_Weight cached_node 5001000 5001000) = Quot 7 1
   \<and> load cached_node 5001000 = Some 2236
   \<and> fst (ewma_Weight cached_node 5001000 5001000) \<noteq> Quot (success cached_node * 10000) 2236
   \<and> (2236::nat) * 2236 < 5000001 \<and> (5000001::nat) < 2237 * 2237"
  by (simp add: younger_than_5ms_def ewma_Weight_def Let_def cached_node_simps cached_node_load
      Millisecond_def i64_def)

text \<open>
  C6, amended. In the ranges where the 64-bit operations do not wrap, \<^verbatim>\<open>Weight()\<close>
  returns the cached value when the cache is at most 5 ms old, and otherwise returns the
  float64 quotient of \<open>success * 10000\<close> and the load, and stores it in the cache with the
  time read at the start of the call. The load is \<open>100000 * inflight\<close> when the smoothed
  lag is zero, and otherwise the integer square root of \<open>max(lag, predict) + 5 ms\<close> times
  \<open>inflight\<close>; the prediction is the integer mean of the ages above the smoothed lag when
  these are more than half of the occupied slots of the ring, and 0 otherwise.
\<close>

theorem C6_ewma_weight:
  assumes "in_range n now'"
    and "\<forall>w. cachedWeight n = Some w \<longrightarrow>
           - (2 ^ 63) \<le> now - updateAt w \<and> now - updateAt w < 2 ^ 63"
  shows "ewma_Weight n now now' =
           (case cachedWeight n of
              None \<Rightarrow>
                (rule_weight n now',
                 n\<lparr>cachedWeight := Some \<lparr>weight_value = rule_weight n now', updateAt = now\<rparr>\<rparr>)
            | Some w \<Rightarrow>
                if now - updateAt w \<le> 5000000 then (weight_value w, n)
                else (rule_weight n now',
                      n\<lparr>cachedWeight := Some \<lparr>weight_value = rule_weight n now', updateAt = now\<rparr>\<rparr>))
         \<and> isqrt k * isqrt k \<le> k \<and> k < (isqrt k + 1) * (isqrt k + 1)"
  using Weight_rule [OF assms] isqrt_bounds [of k] by simp

theorem C6_ewma_weight_witness:
  "in_range busy_node 20000000
   \<and> ewma_Weight busy_node 20000000 20000000 =
       (Quot 10000000 10815,
        busy_node\<lparr>cachedWeight := Some \<lparr>weight_value = Quot 10000000 10815, updateAt = 20000000\<rparr>\<rparr>)
   \<and> ewma_Weight
        (busy_node\<lparr>cachedWeight := Some \<lparr>weight_value = Quot 10000000 10815, updateAt = 20000000\<rparr>\<rparr>)
        25000000 25000000 =
       (Quot 10000000 10815,
        busy_node\<lparr>cachedWeight := Some \<lparr>weight_value = Quot 10000000 10815, updateAt = 20000000\<rparr>\<rparr>)"
proof -
  let ?c = "busy_node\<lparr>cachedWeight := Some \<lparr>weight_value = Quot 10000000 10815, updateAt = 20000000\<rparr>\<rparr>"
  have r: "in_range busy_node 20000000" by (rule busy_node_in_range)
  have c: "\<forall>w. cachedWeight busy_node = Some w \<longrightarrow>
           - (2 ^ 63) \<le> 20000000 - updateAt w \<and> 20000000 - updateAt w < 2 ^ 63"
    by (simp add: busy_node_simps)
  have ages: "ages ?c 25000000 = [15000000, 11000000, 6000000]"
    by (simp add: ages_def busy_node_simps)
  have r': "in_range ?c 25000000"
    by (simp add: in_range_def ages busy_node_simps)
  have c': "\<forall>w. cachedWeight ?c = Some w \<longrightarrow>
           - (2 ^ 63) \<le> 25000000 - updateAt w \<and> 25000000 - updateAt w < 2 ^ 63"
    by simp
  from C6_ewma_weight [OF r c, of 0] C6_ewma_weight [OF r' c', of 0] r
  show ?thesis
    by (simp add: busy_node_rule busy_node_simps)
qed

end
